theory Spec2Isabelle
  imports Complex_Main "HOL-Library.Log_Nat"
begin

section \<open>Embedding of moon\_calculator.py\<close>

text \<open>
  The three pure functions of \<^verbatim>\<open>moon_calculator.py\<close> are embedded:
  \<^verbatim>\<open>moon_phase_name\<close>, \<^verbatim>\<open>moon_illumination_pct\<close> and \<^verbatim>\<open>unicode_moon\<close>, together with
  the \<^verbatim>\<open>try/except\<close> of \<^verbatim>\<open>main\<close> that selects the illumination fraction.

  Conventions of the embedding.
  \<^item> A Python \<^verbatim>\<open>float\<close> is a \<^typ>\<open>real\<close> and every float operation is the exact
    operation on reals: rounding, infinities and NaN are not modelled. A decimal literal
    of the source is the rational it denotes. (The classifier and the renderer are
    embedded again further down with IEEE 754 rounding made explicit, for the properties
    that rounding decides.)
  \<^item> A Python \<^verbatim>\<open>int\<close> is an \<^typ>\<open>int\<close>.
  \<^item> The only exception the embedded code can raise is \<^verbatim>\<open>ZeroDivisionError\<close>; it is a
    value \<open>Inl ZeroDivisionError\<close> of the result type \<open>error + 'a\<close>.
  \<^item> The phase names are ASCII and are HOL strings. The string built by
    \<^verbatim>\<open>unicode_moon\<close> holds block characters beyond one byte, so it is a list of Unicode
    code points (\<^typ>\<open>nat\<close>), which is what Python's \<^verbatim>\<open>len\<close> and indexing count.
\<close>

subsection \<open>Errors and float arithmetic\<close>

datatype error = ZeroDivisionError

text \<open>\<^verbatim>\<open>x / y\<close> on floats (an int operand is converted first): raises on a zero divisor.\<close>

definition float_truediv :: "real \<Rightarrow> real \<Rightarrow> error + real" where
  "float_truediv x y = (if y = 0 then Inl ZeroDivisionError else Inr (x / y))"

text \<open>
  \<^verbatim>\<open>x % y\<close> on floats: raises on a zero divisor, otherwise the remainder of the floor
  division, \<open>x - y * floor (x / y)\<close>, which has the sign of the divisor.
\<close>

definition float_mod :: "real \<Rightarrow> real \<Rightarrow> error + real" where
  "float_mod x y =
     (if y = 0 then Inl ZeroDivisionError else Inr (x - y * of_int \<lfloor>x / y\<rfloor>))"

subsection \<open>The synodic month and the phase classifier\<close>

definition SYNODIC_MONTH :: real where
  "SYNODIC_MONTH = 29.53058867"

text \<open>
  \<^verbatim>\<open>
  def moon_phase_name(age_days: float) -> str:
      a = age_days % SYNODIC_MONTH
      if a < 1.0:    return "New Moon"
      elif a < 6.0:  return "Waxing Crescent"
      elif a < 8.0:  return "First Quarter"
      elif a < 13.0: return "Waxing Gibbous"
      elif a < 16.0: return "Full Moon"
      elif a < 21.0: return "Waning Gibbous"
      elif a < 23.0: return "Last Quarter"
      elif a < 29.0: return "Waning Crescent"
      else:          return "New Moon"
  \<close>
\<close>

definition moon_phase_name :: "real \<Rightarrow> error + string" where
  "moon_phase_name age_days =
     (case float_mod age_days SYNODIC_MONTH of
        Inl e \<Rightarrow> Inl e
      | Inr a \<Rightarrow>
          Inr (if a < 1 then ''New Moon''
               else if a < 6 then ''Waxing Crescent''
               else if a < 8 then ''First Quarter''
               else if a < 13 then ''Waxing Gibbous''
               else if a < 16 then ''Full Moon''
               else if a < 21 then ''Waning Gibbous''
               else if a < 23 then ''Last Quarter''
               else if a < 29 then ''Waning Crescent''
               else ''New Moon''))"

text \<open>The eight phase names the classifier can return.\<close>

definition phase_names :: "string list" where
  "phase_names =
     [''New Moon'', ''Waxing Crescent'', ''First Quarter'', ''Waxing Gibbous'',
      ''Full Moon'', ''Waning Gibbous'', ''Last Quarter'', ''Waning Crescent'']"

text \<open>
  The threshold table as the specification words it (section 4.1), a list of rows
  \<open>(lo, hi, name)\<close> read as: a reduced age in \<open>[lo, hi)\<close> has phase \<open>name\<close>. It is
  written from the specification, to be compared with \<open>moon_phase_name\<close>.
\<close>

definition spec_phase_table :: "(real \<times> real \<times> string) list" where
  "spec_phase_table =
     [(0, 1, ''New Moon''),
      (1, 6, ''Waxing Crescent''),
      (6, 8, ''First Quarter''),
      (8, 13, ''Waxing Gibbous''),
      (13, 16, ''Full Moon''),
      (16, 21, ''Waning Gibbous''),
      (21, 23, ''Last Quarter''),
      (23, 29, ''Waning Crescent''),
      (29, 29.53058867, ''New Moon'')]"

subsection \<open>The illumination approximation and its use in main\<close>

text \<open>
  \<^verbatim>\<open>
  def moon_illumination_pct(age_days: float) -> float:
      phase_angle = 2.0 * math.pi * (age_days / SYNODIC_MONTH)
      frac = (1.0 - math.cos(phase_angle)) / 2.0
      return frac * 100.0
  \<close>
\<close>

definition moon_illumination_pct :: "real \<Rightarrow> error + real" where
  "moon_illumination_pct age_days =
     (case float_truediv age_days SYNODIC_MONTH of
        Inl e \<Rightarrow> Inl e
      | Inr q \<Rightarrow>
          (let phase_angle = 2 * pi * q;
               frac = (1 - cos phase_angle) / 2
           in Inr (frac * 100)))"

text \<open>
  The selection of the illumination fraction in \<^verbatim>\<open>main\<close>:
  \<^verbatim>\<open>
  try:
      illum_frac = float(moon.illumination(today_local))
  except Exception:
      illum_frac = moon_illumination_pct(age) / 100.0
  \<close>
  The call into the ephemeris library is a parameter: \<open>Some v\<close> when it returned \<open>v\<close>,
  \<open>None\<close> when it raised. An exception raised inside the handler propagates.
\<close>

definition main_illum_frac :: "real option \<Rightarrow> real \<Rightarrow> error + real" where
  "main_illum_frac ephemeris age =
     (case ephemeris of
        Some v \<Rightarrow> Inr v
      | None \<Rightarrow>
          (case moon_illumination_pct age of
             Inl e \<Rightarrow> Inl e
           | Inr pct \<Rightarrow> float_truediv pct 100))"

subsection \<open>The renderer\<close>

text \<open>A Python string as the list of its code points.\<close>

type_synonym pystr = "nat list"

text \<open>
  The glyphs of \<^verbatim>\<open>unicode_moon\<close>, by code point: FULL is U+2588 (full block), EDGE2 is
  U+2593 (dark shade), EDGE1 is U+2592 (medium shade), DARK is U+2591 (light shade),
  OUT is the space; NEWLINE is the separator of the final join.
\<close>

definition FULL :: nat where "FULL = 9608"
definition EDGE2 :: nat where "EDGE2 = 9619"
definition EDGE1 :: nat where "EDGE1 = 9618"
definition DARK :: nat where "DARK = 9617"
definition OUT :: nat where "OUT = 32"
definition NEWLINE :: nat where "NEWLINE = 10"

definition t1 :: real where "t1 = 0.025"
definition t2 :: real where "t2 = 0.07"

text \<open>\<^verbatim>\<open>range(n)\<close> for an int \<open>n\<close>: \<open>0, ..., n - 1\<close>, empty when \<open>n \<le> 0\<close>.\<close>

definition py_range :: "int \<Rightarrow> int list" where
  "py_range n = map int [0..<nat n]"

text \<open>
  A \<^verbatim>\<open>for\<close> loop that appends one result per iteration to a list: the iterations run
  in order and the first exception ends the loop and is the result.
\<close>

fun for_append :: "('a \<Rightarrow> error + 'b) \<Rightarrow> 'a list \<Rightarrow> error + 'b list" where
  "for_append body [] = Inr []"
| "for_append body (x # xs) =
     (case body x of
        Inl e \<Rightarrow> Inl e
      | Inr y \<Rightarrow>
          (case for_append body xs of
             Inl e \<Rightarrow> Inl e
           | Inr ys \<Rightarrow> Inr (y # ys)))"

text \<open>\<^verbatim>\<open>sep.join(rows)\<close>.\<close>

fun str_join :: "pystr \<Rightarrow> pystr list \<Rightarrow> pystr" where
  "str_join sep [] = []"
| "str_join sep [r] = r"
| "str_join sep (r # rs) = r @ sep @ str_join sep rs"

text \<open>
  The glyph of one cell, once \<open>x\<close> is known (the body of the inner loop after the
  computation of \<open>x\<close>):
  \<^verbatim>\<open>
  if x * x + y_adj * y_adj > 1.0:
      row_chars.append(OUT); continue
  term = b if waxing else -b
  dist = x - term
  lit = dist > 0 if waxing else dist < 0
  adist = abs(dist)
  if lit:
      if adist < t1:   ch = EDGE1
      elif adist < t2: ch = EDGE2
      else:            ch = FULL
  else:
      if adist < t2:   ch = EDGE1
      else:            ch = DARK
  row_chars.append(ch)
  \<close>
\<close>

definition cell_char :: "real \<Rightarrow> bool \<Rightarrow> real \<Rightarrow> real \<Rightarrow> nat" where
  "cell_char b waxing y_adj x =
     (if x * x + y_adj * y_adj > 1 then OUT
      else
        (let term = (if waxing then b else - b);
             dist = x - term;
             lit = (if waxing then dist > 0 else dist < 0);
             adist = \<bar>dist\<bar>
         in if lit then
              (if adist < t1 then EDGE1 else if adist < t2 then EDGE2 else FULL)
            else
              (if adist < t2 then EDGE1 else DARK)))"

text \<open>
  The inner loop, \<^verbatim>\<open>for i in range(width): x = (2.0 * i / (width - 1)) - 1.0; ...\<close>,
  and the \<^verbatim>\<open>"".join(row_chars)\<close> of its one-character strings: the row as a string.
\<close>

definition row_chars :: "real \<Rightarrow> bool \<Rightarrow> int \<Rightarrow> real \<Rightarrow> error + pystr" where
  "row_chars b waxing width y_adj =
     for_append
       (\<lambda>i. case float_truediv (2 * of_int i) (of_int (width - 1)) of
               Inl e \<Rightarrow> Inl e
             | Inr q \<Rightarrow> Inr (cell_char b waxing y_adj (q - 1)))
       (py_range width)"

text \<open>
  The outer loop, which builds the list \<^verbatim>\<open>rows\<close>:
  \<^verbatim>\<open>
  illum_frac = max(0.0, min(1.0, illum_frac))
  b = 1.0 - 2.0 * illum_frac
  rows = []
  for j in range(height):
      y = (2.0 * j / (height - 1)) - 1.0
      y_adj = y * 1.15
      ... inner loop ...
      rows.append("".join(row_chars))
  \<close>
\<close>

definition moon_rows :: "real \<Rightarrow> bool \<Rightarrow> int \<Rightarrow> int \<Rightarrow> error + pystr list" where
  "moon_rows illum_frac waxing width height =
     (let illum_frac' = max 0 (min 1 illum_frac);
          b = 1 - 2 * illum_frac'
      in for_append
           (\<lambda>j. case float_truediv (2 * of_int j) (of_int (height - 1)) of
                   Inl e \<Rightarrow> Inl e
                 | Inr q \<Rightarrow>
                     (let y = q - 1;
                          y_adj = y * 1.15
                      in row_chars b waxing width y_adj))
           (py_range height))"

text \<open>\<^verbatim>\<open>unicode_moon\<close> returns \<^verbatim>\<open>"\n".join(rows)\<close>.\<close>

definition unicode_moon :: "real \<Rightarrow> bool \<Rightarrow> int \<Rightarrow> int \<Rightarrow> error + pystr" where
  "unicode_moon illum_frac waxing width height =
     (case moon_rows illum_frac waxing width height of
        Inl e \<Rightarrow> Inl e
      | Inr rows \<Rightarrow> Inr (str_join [NEWLINE] rows))"

text \<open>
  Reading the result back: \<^verbatim>\<open>s.split("\n")\<close>, the lines of a string. It is not part of
  the program; the properties of the grid are stated on the lines of the returned
  string.
\<close>

fun str_split :: "nat \<Rightarrow> pystr \<Rightarrow> pystr list" where
  "str_split c [] = [[]]"
| "str_split c (x # xs) =
     (if x = c then [] # str_split c xs
      else (case str_split c xs of
              [] \<Rightarrow> [[x]]
            | r # rs \<Rightarrow> (x # r) # rs))"

definition grid_lines :: "pystr \<Rightarrow> pystr list" where
  "grid_lines s = str_split NEWLINE s"

subsection \<open>Names for the statements about the renderer\<close>

text \<open>
  The expressions the two loops compute for a column and a row, named for use in the
  lemmas: \<open>col_x width i\<close> is \<^verbatim>\<open>x\<close> and \<open>row_y_adj height j\<close> is \<^verbatim>\<open>y_adj\<close>. They are
  used only where the divisor is not zero, that is, where the source does not raise.
\<close>

definition col_x :: "int \<Rightarrow> int \<Rightarrow> real" where
  "col_x width i = 2 * of_int i / of_int (width - 1) - 1"

definition row_y_adj :: "int \<Rightarrow> int \<Rightarrow> real" where
  "row_y_adj height j = (2 * of_int j / of_int (height - 1) - 1) * 1.15"

text \<open>
  The list \<^verbatim>\<open>rows\<close> that \<open>moon_rows\<close> builds when no division raises (lemma
  \<open>moon_rows_ok\<close> below): one row per \<open>j\<close> in \<^verbatim>\<open>range(height)\<close>, one glyph per \<open>i\<close> in
  \<^verbatim>\<open>range(width)\<close>.
\<close>

definition moon_grid :: "real \<Rightarrow> bool \<Rightarrow> int \<Rightarrow> int \<Rightarrow> pystr list" where
  "moon_grid illum_frac waxing width height =
     map (\<lambda>j. map (\<lambda>i. cell_char (1 - 2 * max 0 (min 1 illum_frac)) waxing
                         (row_y_adj height j) (col_x width i))
                (py_range width))
         (py_range height)"

section \<open>The same functions in IEEE 754 binary64 arithmetic\<close>

text \<open>
  The embedding above reads every float operation as the exact operation on reals. That
  reading cannot settle a property that depends on rounding, so the classifier and the
  renderer are embedded a second time with the rounding of every operation made explicit.
  The definitions with the suffix \<open>_f64\<close> follow the same source lines; a value of type
  \<^typ>\<open>real\<close> stands for the double with that value.

  What the second embedding covers: a decimal literal is the nearest double; an int operand
  is converted to the nearest double; \<^verbatim>\<open>+\<close>, \<^verbatim>\<open>-\<close>, \<^verbatim>\<open>*\<close> and \<^verbatim>\<open>/\<close> return the double
  nearest to the exact result, ties to the even mantissa, with gradual underflow;
  \<^verbatim>\<open>%\<close> is CPython's \<^verbatim>\<open>float_rem\<close>; negation, \<^verbatim>\<open>abs\<close>, \<^verbatim>\<open>min\<close>, \<^verbatim>\<open>max\<close> and the
  comparisons are exact. What it leaves out: infinities and NaN, so a result beyond the
  largest double is kept as a real instead of becoming \<^verbatim>\<open>inf\<close>, and the
  \<^verbatim>\<open>OverflowError\<close> of converting an int of 1024 bits or more. \<^verbatim>\<open>math.cos\<close> has no
  bit-exact specification, so \<^verbatim>\<open>moon_illumination_pct\<close> has no second embedding.
\<close>

subsection \<open>Rounding to the nearest double\<close>

text \<open>The integer nearest to \<open>t\<close>, the even one of the two when \<open>t\<close> lies halfway.\<close>

definition round_half_even :: "real \<Rightarrow> int" where
  "round_half_even t =
     (let f = \<lfloor>t\<rfloor>; d = t - of_int f
      in if d < 1 / 2 then f else if 1 / 2 < d then f + 1 else if even f then f else f + 1)"

text \<open>
  The binary exponent of \<open>x \<noteq> 0\<close>: the \<open>e\<close> with \<open>2^e \<le> |x| < 2^(e+1)\<close> (lemma
  \<open>binade_bounds\<close>), computed from the bit length of an integer.
\<close>

definition binade :: "real \<Rightarrow> int" where
  "binade x =
     (if 1 \<le> \<bar>x\<bar> then bitlen \<lfloor>\<bar>x\<bar>\<rfloor> - 1 else - bitlen (\<lceil>1 / \<bar>x\<bar>\<rceil> - 1))"

text \<open>
  The exponent of the unit in the last place near \<open>x\<close>: 52 below the binary exponent
  (a 53-bit mantissa), and never below \<open>-1074\<close> (subnormal numbers).
\<close>

definition ulp_exp :: "real \<Rightarrow> int" where
  "ulp_exp x = max (binade x) (- 1022) - 52"

definition round_f64 :: "real \<Rightarrow> real" where
  "round_f64 x =
     (if x = 0 then 0
      else of_int (round_half_even (x / 2 powi ulp_exp x)) * 2 powi ulp_exp x)"

text \<open>
  A real is a double when rounding leaves it unchanged. (No largest double is modelled, so
  the predicate also holds of \<open>m * 2^e\<close> with a 53-bit \<open>m\<close> and \<open>e\<close> above the range.)
\<close>

definition is_f64 :: "real \<Rightarrow> bool" where
  "is_f64 x \<longleftrightarrow> round_f64 x = x"

subsection \<open>Float operations\<close>






text \<open>
  \<^verbatim>\<open>x % y\<close> on floats, as CPython's \<^verbatim>\<open>float_rem\<close> computes it:
  \<^verbatim>\<open>
  if (wx == 0.0) raise ZeroDivisionError
  mod = fmod(vx, wx);
  if (mod) { if ((wx < 0) != (mod < 0)) mod += wx; }
  else mod = copysign(0.0, wx);
  \<close>
  C's \<^verbatim>\<open>fmod\<close> is exact: it returns \<open>x - y * trunc (x / y)\<close> with the quotient truncated
  towards zero, which is a double whenever \<open>x\<close> and \<open>y\<close> are. The correction \<^verbatim>\<open>mod += wx\<close> is
  a float addition and rounds.
\<close>

definition c_trunc :: "real \<Rightarrow> int" where
  "c_trunc t = (if 0 \<le> t then \<lfloor>t\<rfloor> else \<lceil>t\<rceil>)"

definition c_fmod :: "real \<Rightarrow> real \<Rightarrow> real" where
  "c_fmod x y = x - y * of_int (c_trunc (x / y))"

definition f64_mod :: "real \<Rightarrow> real \<Rightarrow> error + real" where
  "f64_mod vx wx =
     (if wx = 0 then Inl ZeroDivisionError
      else
        (let m = c_fmod vx wx
         in if m \<noteq> 0 then
              (if (wx < 0) \<noteq> (m < 0) then Inr (round_f64 (m + wx)) else Inr m)
            else Inr 0))"

subsection \<open>The classifier on doubles\<close>

text \<open>\<^verbatim>\<open>SYNODIC_MONTH = 29.53058867\<close>: the double nearest to the decimal.\<close>

definition SYNODIC_MONTH_f64 :: real where
  "SYNODIC_MONTH_f64 = round_f64 29.53058867"

text \<open>
  \<^verbatim>\<open>moon_phase_name\<close>, lines 48 to 68 of the source. The thresholds \<^verbatim>\<open>1.0\<close>, ...,
  \<^verbatim>\<open>29.0\<close> are doubles.
\<close>

definition moon_phase_name_f64 :: "real \<Rightarrow> error + string" where
  "moon_phase_name_f64 age_days =
     (case f64_mod age_days SYNODIC_MONTH_f64 of
        Inl e \<Rightarrow> Inl e
      | Inr a \<Rightarrow>
          Inr (if a < 1 then ''New Moon''
               else if a < 6 then ''Waxing Crescent''
               else if a < 8 then ''First Quarter''
               else if a < 13 then ''Waxing Gibbous''
               else if a < 16 then ''Full Moon''
               else if a < 21 then ''Waning Gibbous''
               else if a < 23 then ''Last Quarter''
               else if a < 29 then ''Waning Crescent''
               else ''New Moon''))"

subsection \<open>The renderer on doubles\<close>









section \<open>Properties\<close>

subsection \<open>Float arithmetic\<close>

lemma SYNODIC_MONTH_pos: "0 < SYNODIC_MONTH"
  by (simp add: SYNODIC_MONTH_def)

lemma float_mod_SYNODIC_MONTH:
  "float_mod x SYNODIC_MONTH = Inr (x - SYNODIC_MONTH * of_int \<lfloor>x / SYNODIC_MONTH\<rfloor>)"
  using SYNODIC_MONTH_pos by (simp add: float_mod_def)

subsection \<open>The classifier\<close>

lemma float_mod_reduced:
  assumes "0 \<le> a" "a < SYNODIC_MONTH"
  shows "float_mod a SYNODIC_MONTH = Inr a"
proof -
  have pos: "0 < SYNODIC_MONTH" by (rule SYNODIC_MONTH_pos)
  have "0 \<le> a / SYNODIC_MONTH" "a / SYNODIC_MONTH < 1" using assms pos by simp_all
  then have "\<lfloor>a / SYNODIC_MONTH\<rfloor> = 0" by linarith
  then show ?thesis unfolding float_mod_SYNODIC_MONTH by simp
qed

lemma moon_phase_name_of_mod:
  "float_mod age_days SYNODIC_MONTH = Inr a \<Longrightarrow>
   moon_phase_name age_days =
     Inr (if a < 1 then ''New Moon''
          else if a < 6 then ''Waxing Crescent''
          else if a < 8 then ''First Quarter''
          else if a < 13 then ''Waxing Gibbous''
          else if a < 16 then ''Full Moon''
          else if a < 21 then ''Waning Gibbous''
          else if a < 23 then ''Last Quarter''
          else if a < 29 then ''Waning Crescent''
          else ''New Moon'')"
  by (simp add: moon_phase_name_def)

lemma moon_phase_name_reduced:
  assumes "0 \<le> a" "a < SYNODIC_MONTH"
  shows "moon_phase_name a =
     Inr (if a < 1 then ''New Moon''
          else if a < 6 then ''Waxing Crescent''
          else if a < 8 then ''First Quarter''
          else if a < 13 then ''Waxing Gibbous''
          else if a < 16 then ''Full Moon''
          else if a < 21 then ''Waning Gibbous''
          else if a < 23 then ''Last Quarter''
          else if a < 29 then ''Waning Crescent''
          else ''New Moon'')"
  by (rule moon_phase_name_of_mod [OF float_mod_reduced [OF assms]])

lemma moon_phase_name_at_0_5: "moon_phase_name 0.5 = Inr ''New Moon''"
  by (subst moon_phase_name_reduced) (simp_all add: SYNODIC_MONTH_def)
text \<open>
  Against claim C5 as stated (the ages of each phase name within one synodic month form
  a single interval): 0.5 and 29.2 are both New Moon, and 15, which lies between them, is
  Full Moon.
\<close>

theorem moon_phase_name_new_moon_split:
  "moon_phase_name 0.5 = Inr ''New Moon''
     \<and> moon_phase_name 15 = Inr ''Full Moon''
     \<and> moon_phase_name 29.2 = Inr ''New Moon''
     \<and> (0::real) \<le> 0.5 \<and> (0.5::real) < 15 \<and> (15::real) < 29.2 \<and> 29.2 < SYNODIC_MONTH"
proof -
  have "moon_phase_name 15 = Inr ''Full Moon''"
    by (subst moon_phase_name_reduced) (simp_all add: SYNODIC_MONTH_def)
  moreover have "moon_phase_name 29.2 = Inr ''New Moon''"
    by (subst moon_phase_name_reduced) (simp_all add: SYNODIC_MONTH_def)
  ultimately show ?thesis using moon_phase_name_at_0_5 by (simp add: SYNODIC_MONTH_def)
qed

lemma reduced_age_cases:
  fixes a :: real
  assumes "0 \<le> a" and "a < SYNODIC_MONTH"
  obtains (new) "0 \<le> a" "a < 1"
    | (waxc) "1 \<le> a" "a < 6"
    | (firstq) "6 \<le> a" "a < 8"
    | (waxg) "8 \<le> a" "a < 13"
    | (full) "13 \<le> a" "a < 16"
    | (wang) "16 \<le> a" "a < 21"
    | (lastq) "21 \<le> a" "a < 23"
    | (wanc) "23 \<le> a" "a < 29"
    | (new') "29 \<le> a" "a < 29.53058867"
  using assms unfolding SYNODIC_MONTH_def by linarith

text \<open>
  Claim C5, amended. On \<open>[0, 29.53058867)\<close> the classifier is piecewise constant on the
  nine half-open intervals of the threshold table, which cover the range without gap or
  overlap: exactly one row of the table holds a given age, and its name is the result.
  Each of the seven names other than New Moon is returned on a single interval; New Moon
  is returned on two, \<open>[0, 1)\<close> and \<open>[29, 29.53058867)\<close>. No other name is returned.
\<close>

theorem moon_phase_name_intervals:
  assumes "0 \<le> a" and "a < SYNODIC_MONTH"
  shows "map (\<lambda>(lo, hi, name). Inr name)
             (filter (\<lambda>(lo, hi, name). lo \<le> a \<and> a < hi) spec_phase_table)
           = [moon_phase_name a]
     \<and> (moon_phase_name a = Inr ''New Moon'' \<longleftrightarrow> a < 1 \<or> 29 \<le> a)
     \<and> (moon_phase_name a = Inr ''Waxing Crescent'' \<longleftrightarrow> 1 \<le> a \<and> a < 6)
     \<and> (moon_phase_name a = Inr ''First Quarter'' \<longleftrightarrow> 6 \<le> a \<and> a < 8)
     \<and> (moon_phase_name a = Inr ''Waxing Gibbous'' \<longleftrightarrow> 8 \<le> a \<and> a < 13)
     \<and> (moon_phase_name a = Inr ''Full Moon'' \<longleftrightarrow> 13 \<le> a \<and> a < 16)
     \<and> (moon_phase_name a = Inr ''Waning Gibbous'' \<longleftrightarrow> 16 \<le> a \<and> a < 21)
     \<and> (moon_phase_name a = Inr ''Last Quarter'' \<longleftrightarrow> 21 \<le> a \<and> a < 23)
     \<and> (moon_phase_name a = Inr ''Waning Crescent'' \<longleftrightarrow> 23 \<le> a \<and> a < 29)
     \<and> (\<exists>name \<in> set phase_names. moon_phase_name a = Inr name)"
proof -
  note red = moon_phase_name_reduced [OF assms]
  from assms show ?thesis
  proof (cases rule: reduced_age_cases)
    case new
    then have n: "moon_phase_name a = Inr ''New Moon''" unfolding red by simp
    from new show ?thesis unfolding n spec_phase_table_def phase_names_def by simp
  next
    case waxc
    then have n: "moon_phase_name a = Inr ''Waxing Crescent''" unfolding red by simp
    from waxc show ?thesis unfolding n spec_phase_table_def phase_names_def by simp
  next
    case firstq
    then have n: "moon_phase_name a = Inr ''First Quarter''" unfolding red by simp
    from firstq show ?thesis unfolding n spec_phase_table_def phase_names_def by simp
  next
    case waxg
    then have n: "moon_phase_name a = Inr ''Waxing Gibbous''" unfolding red by simp
    from waxg show ?thesis unfolding n spec_phase_table_def phase_names_def by simp
  next
    case full
    then have n: "moon_phase_name a = Inr ''Full Moon''" unfolding red by simp
    from full show ?thesis unfolding n spec_phase_table_def phase_names_def by simp
  next
    case wang
    then have n: "moon_phase_name a = Inr ''Waning Gibbous''" unfolding red by simp
    from wang show ?thesis unfolding n spec_phase_table_def phase_names_def by simp
  next
    case lastq
    then have n: "moon_phase_name a = Inr ''Last Quarter''" unfolding red by simp
    from lastq show ?thesis unfolding n spec_phase_table_def phase_names_def by simp
  next
    case wanc
    then have n: "moon_phase_name a = Inr ''Waning Crescent''" unfolding red by simp
    from wanc show ?thesis unfolding n spec_phase_table_def phase_names_def by simp
  next
    case new'
    then have n: "moon_phase_name a = Inr ''New Moon''" unfolding red by simp
    from new' show ?thesis unfolding n spec_phase_table_def phase_names_def by simp
  qed
qed


text \<open>The interval theorem used at age 29.2, in the second New Moon interval.\<close>

theorem moon_phase_name_intervals_witness:
  "(0::real) \<le> 29.2 \<and> 29.2 < SYNODIC_MONTH
     \<and> moon_phase_name 29.2 = Inr ''New Moon''
     \<and> moon_phase_name 29.2 \<noteq> Inr ''Waning Crescent''"
proof -
  have h: "(0::real) \<le> 29.2" "29.2 < SYNODIC_MONTH" by (simp_all add: SYNODIC_MONTH_def)
  note th = moon_phase_name_intervals [OF h]
  have "moon_phase_name 29.2 = Inr ''New Moon'' \<longleftrightarrow> (29.2::real) < 1 \<or> (29::real) \<le> 29.2"
    by (rule th [THEN conjunct2, THEN conjunct1])
  then have n: "moon_phase_name 29.2 = Inr ''New Moon''" by simp
  then have "moon_phase_name 29.2 \<noteq> Inr ''Waning Crescent''" by simp
  with h n show ?thesis by blast
qed

subsection \<open>The illumination approximation\<close>

lemma float_truediv_SYNODIC_MONTH:
  "float_truediv x SYNODIC_MONTH = Inr (x / SYNODIC_MONTH)"
  using SYNODIC_MONTH_pos by (simp add: float_truediv_def)

lemma moon_illumination_pct_eq:
  "moon_illumination_pct age_days =
     Inr ((1 - cos (2 * pi * (age_days / SYNODIC_MONTH))) / 2 * 100)"
  by (simp add: moon_illumination_pct_def float_truediv_SYNODIC_MONTH Let_def)

lemma percentage_bounds:
  fixes c :: real
  assumes "- 1 \<le> c" and "c \<le> 1"
  shows "0 \<le> 100 * ((1 - c) / 2)" and "100 * ((1 - c) / 2) \<le> 100"
    and "0 \<le> 50 * (1 - c)" and "50 * (1 - c) \<le> 100"
    and "0 \<le> 50 * (1 - c) / 100" and "50 * (1 - c) / 100 \<le> 1"
  using assms by simp_all

lemmas cos_percentage_bounds = percentage_bounds [OF cos_ge_minus_one cos_le_one]

lemma moon_illumination_pct_full:
  "moon_illumination_pct (SYNODIC_MONTH / 2) = Inr 100"
proof -
  have half: "SYNODIC_MONTH / 2 / SYNODIC_MONTH = 1 / 2"
    unfolding SYNODIC_MONTH_def by simp
  have angle: "2 * pi * (SYNODIC_MONTH / 2 / SYNODIC_MONTH) = pi"
    unfolding half by simp
  show ?thesis unfolding moon_illumination_pct_eq angle by simp
qed

lemma moon_illumination_pct_new:
  "moon_illumination_pct 0 = Inr 0" "moon_illumination_pct SYNODIC_MONTH = Inr 0"
  using SYNODIC_MONTH_pos unfolding moon_illumination_pct_eq by simp_all

text \<open>
  Against claim C1 as stated (the result is the fraction, a value in \<open>[0, 1]\<close>, and is
  about 1 at half the synodic month): at half the synodic month the result is 100.
\<close>

theorem moon_illumination_pct_not_fraction:
  "moon_illumination_pct (29.53058867 / 2) = Inr 100
     \<and> \<not> (\<exists>v. moon_illumination_pct (29.53058867 / 2) = Inr v \<and> 0 \<le> v \<and> v \<le> 1)"
proof -
  have "moon_illumination_pct (29.53058867 / 2) = Inr 100"
    using moon_illumination_pct_full unfolding SYNODIC_MONTH_def .
  then show ?thesis by simp
qed

text \<open>
  Claim C1, amended. For every real \<open>age_days\<close>, \<open>moon_illumination_pct\<close> returns 100
  times the fraction \<open>(1 - cos (2 pi age_days / 29.53058867)) / 2\<close>, a percentage in
  \<open>[0, 100]\<close>; it is 0 at age 0, 100 at half the synodic month and 0 at the synodic month.
\<close>

theorem moon_illumination_pct_percentage:
  "moon_illumination_pct age_days =
       Inr (100 * ((1 - cos (2 * pi * (age_days / 29.53058867))) / 2))
     \<and> 0 \<le> 100 * ((1 - cos (2 * pi * (age_days / 29.53058867))) / 2)
     \<and> 100 * ((1 - cos (2 * pi * (age_days / 29.53058867))) / 2) \<le> 100
     \<and> moon_illumination_pct 0 = Inr 0
     \<and> moon_illumination_pct (29.53058867 / 2) = Inr 100
     \<and> moon_illumination_pct 29.53058867 = Inr 0"
proof -
  let ?t = "2 * pi * (age_days / 29.53058867)"
  have "moon_illumination_pct age_days = Inr (100 * ((1 - cos ?t) / 2))"
    unfolding moon_illumination_pct_eq SYNODIC_MONTH_def by simp
  moreover have "0 \<le> 100 * ((1 - cos ?t) / 2)"
    by (rule cos_percentage_bounds)
  moreover have "100 * ((1 - cos ?t) / 2) \<le> 100"
    by (rule cos_percentage_bounds)
  moreover have "moon_illumination_pct 0 = Inr 0"
    by (rule moon_illumination_pct_new)
  moreover have "moon_illumination_pct (29.53058867 / 2) = Inr 100"
    using moon_illumination_pct_full unfolding SYNODIC_MONTH_def .
  moreover have "moon_illumination_pct 29.53058867 = Inr 0"
    using moon_illumination_pct_new(2) unfolding SYNODIC_MONTH_def .
  ultimately show ?thesis by blast
qed

text \<open>
  Claim C9. For every real \<open>age_days\<close>, \<open>moon_illumination_pct\<close> returns
  \<open>50 * (1 - cos (2 pi age_days / 29.53058867))\<close>, a percentage in \<open>[0, 100]\<close>, and the
  fallback path of \<open>main\<close> (the ephemeris call raised) divides it by 100, so the
  illumination fraction it passes on lies in \<open>[0, 1]\<close>.
\<close>

theorem main_fallback_fraction:
  "moon_illumination_pct age_days =
       Inr (50 * (1 - cos (2 * pi * age_days / 29.53058867)))
     \<and> 0 \<le> 50 * (1 - cos (2 * pi * age_days / 29.53058867))
     \<and> 50 * (1 - cos (2 * pi * age_days / 29.53058867)) \<le> 100
     \<and> main_illum_frac None age_days =
         Inr (50 * (1 - cos (2 * pi * age_days / 29.53058867)) / 100)
     \<and> 0 \<le> 50 * (1 - cos (2 * pi * age_days / 29.53058867)) / 100
     \<and> 50 * (1 - cos (2 * pi * age_days / 29.53058867)) / 100 \<le> 1"
proof -
  let ?t = "2 * pi * age_days / 29.53058867"
  have t: "2 * pi * (age_days / SYNODIC_MONTH) = ?t" by (simp add: SYNODIC_MONTH_def)
  have pct: "moon_illumination_pct age_days = Inr (50 * (1 - cos ?t))"
    unfolding moon_illumination_pct_eq t by simp
  have b1: "0 \<le> 50 * (1 - cos ?t)" by (rule cos_percentage_bounds)
  have b2: "50 * (1 - cos ?t) \<le> 100" by (rule cos_percentage_bounds)
  have m: "main_illum_frac None age_days = Inr (50 * (1 - cos ?t) / 100)"
    unfolding main_illum_frac_def pct float_truediv_def by simp
  have f1: "0 \<le> 50 * (1 - cos ?t) / 100" by (rule cos_percentage_bounds)
  have f2: "50 * (1 - cos ?t) / 100 \<le> 1" by (rule cos_percentage_bounds)
  from pct b1 b2 m f1 f2 show ?thesis by blast
qed

subsection \<open>The renderer: loops and strings\<close>

lemma error_eq: "(e::error) = ZeroDivisionError"
  by (cases e) simp

lemma for_append_Inr:
  "(\<And>x. x \<in> set xs \<Longrightarrow> body x = Inr (g x)) \<Longrightarrow> for_append body xs = Inr (map g xs)"
  by (induction xs) simp_all

lemma for_append_Inl:
  "x \<in> set xs \<Longrightarrow> body x = Inl e \<Longrightarrow> for_append body xs = Inl ZeroDivisionError"
proof (induction xs)
  case Nil
  then show ?case by simp
next
  case (Cons y ys)
  show ?case
  proof (cases "body y")
    case (Inl e')
    then show ?thesis by (simp add: error_eq [of e'])
  next
    case (Inr v)
    with Cons have "x \<in> set ys" by auto
    with Cons have "for_append body ys = Inl ZeroDivisionError" by simp
    with Inr show ?thesis by simp
  qed
qed

lemma py_range_nonpos: "n \<le> 0 \<Longrightarrow> py_range n = []"
  by (simp add: py_range_def)

lemma length_py_range: "length (py_range n) = nat n"
  by (simp add: py_range_def)

lemma nth_py_range: "k < nat n \<Longrightarrow> py_range n ! k = int k"
  by (simp add: py_range_def)

lemma zero_in_py_range: "1 \<le> n \<Longrightarrow> 0 \<in> set (py_range n)"
  by (auto simp: py_range_def image_iff intro!: bexI [of _ 0])

lemma row_chars_ok:
  assumes "width \<noteq> 1"
  shows "row_chars b waxing width y_adj =
           Inr (map (\<lambda>i. cell_char b waxing y_adj (col_x width i)) (py_range width))"
  unfolding row_chars_def
  by (rule for_append_Inr) (use assms in \<open>simp add: float_truediv_def col_x_def\<close>)

lemma row_chars_fail: "row_chars b waxing 1 y_adj = Inl ZeroDivisionError"
  unfolding row_chars_def
  by (rule for_append_Inl [of 0]) (simp_all add: py_range_def float_truediv_def)

lemma moon_rows_ok:
  assumes "width \<noteq> 1" and "height \<noteq> 1"
  shows "moon_rows illum_frac waxing width height =
           Inr (map (\<lambda>j. map (\<lambda>i. cell_char (1 - 2 * max 0 (min 1 illum_frac)) waxing
                                     (row_y_adj height j) (col_x width i))
                              (py_range width))
                    (py_range height))"
  unfolding moon_rows_def Let_def
  by (rule for_append_Inr)
     (use assms in \<open>simp add: float_truediv_def row_chars_ok row_y_adj_def\<close>)

lemma moon_rows_empty:
  "height \<le> 0 \<Longrightarrow> moon_rows illum_frac waxing width height = Inr []"
  by (simp add: moon_rows_def py_range_nonpos)

lemma moon_rows_fail_height:
  "moon_rows illum_frac waxing width 1 = Inl ZeroDivisionError"
  unfolding moon_rows_def Let_def
  by (rule for_append_Inl [of 0]) (simp_all add: py_range_def float_truediv_def)

lemma moon_rows_fail_width:
  assumes "2 \<le> height"
  shows "moon_rows illum_frac waxing 1 height = Inl ZeroDivisionError"
  unfolding moon_rows_def Let_def
proof (rule for_append_Inl [of 0])
  show "0 \<in> set (py_range height)" using assms by (intro zero_in_py_range) simp
  show "(case float_truediv (2 * real_of_int 0) (real_of_int (height - 1)) of
          Inl e \<Rightarrow> Inl e
        | Inr q \<Rightarrow> row_chars (1 - 2 * max 0 (min 1 illum_frac)) waxing 1 ((q - 1) * 1.15))
        = Inl ZeroDivisionError"
    using assms by (simp add: float_truediv_def row_chars_fail)
qed

lemma moon_rows_fails_iff:
  "(\<exists>e. moon_rows illum_frac waxing width height = Inl e)
     \<longleftrightarrow> height = 1 \<or> (2 \<le> height \<and> width = 1)"
proof (cases "height = 1 \<or> (2 \<le> height \<and> width = 1)")
  case True
  then show ?thesis using moon_rows_fail_height moon_rows_fail_width by auto
next
  case False
  then consider "height \<le> 0" | "width \<noteq> 1" "height \<noteq> 1" by linarith
  then have "\<exists>rows. moon_rows illum_frac waxing width height = Inr rows"
    by cases (simp_all add: moon_rows_empty moon_rows_ok)
  with False show ?thesis by auto
qed

lemma str_split_no_sep: "c \<notin> set r \<Longrightarrow> str_split c r = [r]"
  by (induction r) simp_all

lemma str_split_append:
  "c \<notin> set r \<Longrightarrow> str_split c (r @ c # s) = r # str_split c s"
  by (induction r) simp_all

lemma str_join_Cons:
  "rs \<noteq> [] \<Longrightarrow> str_join sep (r # rs) = r @ sep @ str_join sep rs"
  by (cases rs) simp_all

lemma str_split_join:
  "rows \<noteq> [] \<Longrightarrow> (\<And>r. r \<in> set rows \<Longrightarrow> c \<notin> set r) \<Longrightarrow>
   str_split c (str_join [c] rows) = rows"
proof (induction rows rule: list_nonempty_induct)
  case (single r)
  then show ?case by (simp add: str_split_no_sep)
next
  case (cons r rs)
  then show ?case by (simp add: str_join_Cons str_split_append)
qed

lemma set_str_join:
  "set (str_join sep rows) \<subseteq> set sep \<union> \<Union> (set ` set rows)"
  by (induction sep rows rule: str_join.induct) auto

lemma cell_char_glyph: "cell_char b waxing y_adj x \<in> {FULL, EDGE2, EDGE1, DARK, OUT}"
  by (simp add: cell_char_def Let_def)

lemma glyph_not_NEWLINE: "g \<in> {FULL, EDGE2, EDGE1, DARK, OUT} \<Longrightarrow> g \<noteq> NEWLINE"
  by (auto simp: FULL_def EDGE2_def EDGE1_def DARK_def OUT_def NEWLINE_def)

lemma length_moon_grid: "length (moon_grid illum_frac waxing width height) = nat height"
  by (simp add: moon_grid_def length_py_range)

lemma moon_grid_row_length:
  "row \<in> set (moon_grid illum_frac waxing width height) \<Longrightarrow> length row = nat width"
  by (auto simp: moon_grid_def length_py_range)

lemma moon_grid_row_glyphs:
  "row \<in> set (moon_grid illum_frac waxing width height) \<Longrightarrow>
   set row \<subseteq> {FULL, EDGE2, EDGE1, DARK, OUT}"
proof -
  assume "row \<in> set (moon_grid illum_frac waxing width height)"
  then obtain j where
    "row = map (\<lambda>i. cell_char (1 - 2 * max 0 (min 1 illum_frac)) waxing
                       (row_y_adj height j) (col_x width i)) (py_range width)"
    by (auto simp: moon_grid_def)
  then have "set row = (\<lambda>i. cell_char (1 - 2 * max 0 (min 1 illum_frac)) waxing
                       (row_y_adj height j) (col_x width i)) ` set (py_range width)"
    by simp
  then show ?thesis
    by (simp only:) (rule image_subsetI, rule cell_char_glyph)
qed

lemma moon_grid_no_NEWLINE:
  "row \<in> set (moon_grid illum_frac waxing width height) \<Longrightarrow> NEWLINE \<notin> set row"
  using moon_grid_row_glyphs glyph_not_NEWLINE by blast

lemma unicode_moon_ok:
  assumes "width \<noteq> 1" and "height \<noteq> 1"
  shows "unicode_moon illum_frac waxing width height =
           Inr (str_join [NEWLINE] (moon_grid illum_frac waxing width height))"
  by (simp add: unicode_moon_def moon_rows_ok [OF assms] moon_grid_def)

lemma grid_lines_unicode_moon:
  assumes "2 \<le> width" and "2 \<le> height"
  shows "\<exists>s. unicode_moon illum_frac waxing width height = Inr s
            \<and> s = str_join [NEWLINE] (moon_grid illum_frac waxing width height)
            \<and> grid_lines s = moon_grid illum_frac waxing width height"
proof -
  let ?g = "moon_grid illum_frac waxing width height"
  have "length ?g = nat height" by (rule length_moon_grid)
  with assms have ne: "?g \<noteq> []" by auto
  have "grid_lines (str_join [NEWLINE] ?g) = ?g"
    unfolding grid_lines_def by (rule str_split_join [OF ne]) (rule moon_grid_no_NEWLINE)
  moreover have "unicode_moon illum_frac waxing width height = Inr (str_join [NEWLINE] ?g)"
    using assms by (intro unicode_moon_ok) simp_all
  ultimately show ?thesis by simp
qed

text \<open>
  Claim C6. For all integers \<open>width \<ge> 2\<close> and \<open>height \<ge> 2\<close>, both waxing values and every
  \<open>illum_frac\<close> (in \<open>[0, 1]\<close> or not: it is clamped), \<open>unicode_moon\<close> returns a string: it is
  the join by newlines of its lines, there are exactly \<open>height\<close> lines, and each line has
  exactly \<open>width\<close> characters, every one of them one of the five glyphs.
\<close>

theorem unicode_moon_dimensions:
  assumes "2 \<le> width" and "2 \<le> height"
  shows "\<exists>s. unicode_moon illum_frac waxing width height = Inr s
            \<and> s = str_join [NEWLINE] (grid_lines s)
            \<and> int (length (grid_lines s)) = height
            \<and> (\<forall>row \<in> set (grid_lines s).
                  int (length row) = width \<and> set row \<subseteq> {FULL, EDGE2, EDGE1, DARK, OUT})"
proof -
  from grid_lines_unicode_moon [OF assms] obtain s where
    s: "unicode_moon illum_frac waxing width height = Inr s"
       "s = str_join [NEWLINE] (moon_grid illum_frac waxing width height)"
       "grid_lines s = moon_grid illum_frac waxing width height"
    by blast
  have "int (length (grid_lines s)) = height"
    using assms by (simp add: s(3) length_moon_grid)
  moreover have "\<forall>row \<in> set (grid_lines s).
      int (length row) = width \<and> set row \<subseteq> {FULL, EDGE2, EDGE1, DARK, OUT}"
    unfolding s(3) using assms moon_grid_row_length moon_grid_row_glyphs
    by (metis int_nat_eq order_trans zero_le_numeral)
  moreover have "s = str_join [NEWLINE] (grid_lines s)" using s(2,3) by simp
  ultimately show ?thesis using s(1) by blast
qed

text \<open>The dimension theorem used at width 3 and height 2, for a waxing half moon.\<close>

theorem unicode_moon_dimensions_witness:
  "(2::int) \<le> 3 \<and> (2::int) \<le> 2
     \<and> (\<exists>s. unicode_moon 0.5 True 3 2 = Inr s
            \<and> int (length (grid_lines s)) = 2
            \<and> list_all (\<lambda>row. int (length row) = 3) (grid_lines s))"
proof -
  have h: "(2::int) \<le> 3" "(2::int) \<le> 2" by simp_all
  from unicode_moon_dimensions [OF h, where illum_frac = "0.5" and waxing = True]
  obtain s where "unicode_moon 0.5 True 3 2 = Inr s"
    and "int (length (grid_lines s)) = 2"
    and "\<forall>row \<in> set (grid_lines s). int (length row) = 3"
    by blast
  then show ?thesis using h by (auto simp: list_all_iff)
qed

lemma unicode_moon_Inl_iff_moon_rows:
  "(\<exists>e. unicode_moon illum_frac waxing width height = Inl e)
     \<longleftrightarrow> (\<exists>e. moon_rows illum_frac waxing width height = Inl e)"
  by (cases "moon_rows illum_frac waxing width height") (simp_all add: unicode_moon_def)

text \<open>
  Claim C2, amended. \<open>unicode_moon\<close> checks no dimension and has no InvalidDimensions
  condition. It fails, with ZeroDivisionError, exactly when \<open>height = 1\<close>, or
  \<open>height \<ge> 2\<close> and \<open>width = 1\<close>; for all other inputs (any real \<open>illum_frac\<close>, either
  waxing value) it returns a string. So it fails for \<open>width = 1\<close> whenever
  \<open>height \<ge> 1\<close>, and does not fail for \<open>height \<le> 0\<close> nor for \<open>width \<le> 0\<close> with
  \<open>height \<ge> 2\<close>.
\<close>

theorem unicode_moon_fails_iff:
  "(unicode_moon illum_frac waxing width height = Inl ZeroDivisionError
      \<longleftrightarrow> height = 1 \<or> (2 \<le> height \<and> width = 1))
   \<and> ((\<exists>s. unicode_moon illum_frac waxing width height = Inr s)
      \<longleftrightarrow> \<not> (height = 1 \<or> (2 \<le> height \<and> width = 1)))"
proof -
  let ?u = "unicode_moon illum_frac waxing width height"
  have a: "(\<exists>e. ?u = Inl e) \<longleftrightarrow> height = 1 \<or> (2 \<le> height \<and> width = 1)"
    unfolding unicode_moon_Inl_iff_moon_rows by (rule moon_rows_fails_iff)
  have b: "(\<exists>e. ?u = Inl e) \<longleftrightarrow> ?u = Inl ZeroDivisionError"
    using error_eq by metis
  have c: "(\<exists>s. ?u = Inr s) \<longleftrightarrow> \<not> (\<exists>e. ?u = Inl e)"
    by (cases ?u) simp_all
  from a b c show ?thesis by simp
qed

text \<open>
  Against claim C2 as stated (it fails whenever \<open>width < 2\<close> or \<open>height < 2\<close>, in
  particular for \<open>height = 0\<close>): with height 0 the result is the empty string, and with
  width 0 and height 2 it is a single newline.
\<close>

theorem unicode_moon_no_dimension_check:
  "unicode_moon 0.5 True 5 0 = Inr []
     \<and> unicode_moon 0.5 True 0 2 = Inr [NEWLINE]"
proof -
  have "unicode_moon 0.5 True 5 0 = Inr []"
    by (simp add: unicode_moon_def moon_rows_empty)
  moreover have "unicode_moon 0.5 True 0 2 = Inr [NEWLINE]"
    by (simp add: unicode_moon_ok moon_grid_def py_range_def upt_rec)
  ultimately show ?thesis by simp
qed

subsection \<open>The renderer: glyphs\<close>

lemma in_disc_bounds:
  fixes x y :: real
  assumes "\<not> x * x + y * y > 1"
  shows "- 1 \<le> x" and "x \<le> 1"
proof -
  have "0 \<le> y * y" by simp
  with assms have "x * x \<le> 1" by linarith
  then have "x\<^sup>2 \<le> 1" by (simp add: power2_eq_square)
  then have "\<bar>x\<bar> \<le> 1" by (simp add: abs_square_le_1)
  then show "- 1 \<le> x" and "x \<le> 1" by linarith+
qed

lemma glyphs_distinct:
  "FULL \<noteq> DARK" "EDGE2 \<noteq> DARK" "EDGE1 \<noteq> DARK" "OUT \<noteq> DARK"
  "EDGE1 \<noteq> FULL" "DARK \<noteq> FULL" "OUT \<noteq> FULL" "NEWLINE \<noteq> FULL" "NEWLINE \<noteq> DARK"
  by (simp_all add: FULL_def EDGE2_def EDGE1_def DARK_def OUT_def NEWLINE_def)

lemma cell_char_new_waxing: "cell_char 1 True y_adj x \<in> {DARK, EDGE1, OUT}"
proof (cases "x * x + y_adj * y_adj > 1")
  case True
  then show ?thesis by (simp add: cell_char_def)
next
  case False
  from in_disc_bounds(2) [OF False] have "\<not> x - 1 > 0" by simp
  with False show ?thesis by (simp add: cell_char_def Let_def)
qed

lemma cell_char_full_moon: "cell_char (- 1) waxing y_adj x \<noteq> DARK"
proof (cases "x * x + y_adj * y_adj > 1")
  case True
  then show ?thesis by (simp add: cell_char_def glyphs_distinct)
next
  case False
  note b = in_disc_bounds [OF False]
  show ?thesis
  proof (cases waxing)
    case True
    show ?thesis
    proof (cases "x + 1 > 0")
      case lit: True
      with False True show ?thesis by (simp add: cell_char_def Let_def glyphs_distinct)
    next
      case dark: False
      with b have "x = - 1" by linarith
      with False True show ?thesis by (simp add: cell_char_def Let_def t2_def glyphs_distinct)
    qed
  next
    case waning: False
    show ?thesis
    proof (cases "x - 1 < 0")
      case lit: True
      with False waning show ?thesis by (simp add: cell_char_def Let_def glyphs_distinct)
    next
      case dark: False
      with b have "x = 1" by linarith
      with False waning show ?thesis
        by (simp add: cell_char_def Let_def t2_def glyphs_distinct)
    qed
  qed
qed

lemma outside_stretched_row:
  fixes x :: real
  shows "1 < x * x + 529 / 400"
  using zero_le_square [of x] by linarith

lemma cell_char_first_row: "cell_char b waxing (row_y_adj height 0) x = OUT"
  using outside_stretched_row [of x] by (simp add: cell_char_def row_y_adj_def)

lemma cell_char_last_row:
  assumes "height \<noteq> 1"
  shows "cell_char b waxing (row_y_adj height (height - 1)) x = OUT"
proof -
  have nz: "real_of_int (height - 1) \<noteq> 0" using assms by simp
  have "2 * real_of_int (height - 1) / real_of_int (height - 1) = 2"
    using nz by (rule nonzero_mult_div_cancel_right)
  then have y: "row_y_adj height (height - 1) = 23 / 20"
    unfolding row_y_adj_def by (simp only:) simp
  have "1 < x * x + row_y_adj height (height - 1) * row_y_adj height (height - 1)"
    unfolding y using outside_stretched_row [of x] by simp
  then show ?thesis by (simp add: cell_char_def)
qed


lemma moon_grid_nth:
  "k < nat height \<Longrightarrow>
   moon_grid illum_frac waxing width height ! k =
     map (\<lambda>i. cell_char (1 - 2 * max 0 (min 1 illum_frac)) waxing
                 (row_y_adj height (int k)) (col_x width i)) (py_range width)"
  by (simp add: moon_grid_def length_py_range nth_py_range)

lemma moon_grid_cells:
  assumes "g \<in> \<Union> (set ` set (moon_grid illum_frac waxing width height))"
  shows "\<exists>y x. g = cell_char (1 - 2 * max 0 (min 1 illum_frac)) waxing y x"
  using assms by (auto simp: moon_grid_def)

text \<open>
  Claim C7. For all integers \<open>width \<ge> 2\<close> and \<open>height \<ge> 2\<close>: the string returned for
  \<open>illum_frac = 0\<close>, waxing, holds no FULL glyph (every character is DARK, EDGE1, OUT or
  the newline between rows), and the string returned for \<open>illum_frac = 1\<close>, with either
  waxing value, holds no DARK glyph.
\<close>

theorem unicode_moon_new_and_full:
  assumes "2 \<le> width" and "2 \<le> height"
  shows "(\<exists>s. unicode_moon 0 True width height = Inr s
              \<and> FULL \<notin> set s \<and> set s \<subseteq> {DARK, EDGE1, OUT, NEWLINE})
       \<and> (\<forall>waxing. \<exists>s. unicode_moon 1 waxing width height = Inr s \<and> DARK \<notin> set s)"
proof -
  have new: "\<exists>s. unicode_moon 0 True width height = Inr s
              \<and> FULL \<notin> set s \<and> set s \<subseteq> {DARK, EDGE1, OUT, NEWLINE}"
  proof -
    let ?s = "str_join [NEWLINE] (moon_grid 0 True width height)"
    have u: "unicode_moon 0 True width height = Inr ?s"
      using assms by (intro unicode_moon_ok) simp_all
    have sub: "set ?s \<subseteq> {DARK, EDGE1, OUT, NEWLINE}"
    proof
      fix g assume "g \<in> set ?s"
      with set_str_join [of "[NEWLINE]" "moon_grid 0 True width height"]
      consider "g = NEWLINE" | "g \<in> \<Union> (set ` set (moon_grid 0 True width height))"
        by auto
      then show "g \<in> {DARK, EDGE1, OUT, NEWLINE}"
      proof cases
        case 1
        then show ?thesis by simp
      next
        case 2
        from moon_grid_cells [OF 2] obtain y x where "g = cell_char 1 True y x" by auto
        with cell_char_new_waxing [of y x] show ?thesis by auto
      qed
    qed
    then have "FULL \<notin> set ?s" using glyphs_distinct by auto
    with u sub show ?thesis by blast
  qed
  have full: "\<exists>s. unicode_moon 1 waxing width height = Inr s \<and> DARK \<notin> set s" for waxing
  proof -
    let ?s = "str_join [NEWLINE] (moon_grid 1 waxing width height)"
    have u: "unicode_moon 1 waxing width height = Inr ?s"
      using assms by (intro unicode_moon_ok) simp_all
    have "DARK \<notin> set ?s"
    proof
      assume "DARK \<in> set ?s"
      with set_str_join [of "[NEWLINE]" "moon_grid 1 waxing width height"]
      consider "DARK = NEWLINE" | "DARK \<in> \<Union> (set ` set (moon_grid 1 waxing width height))"
        by auto
      then show False
      proof cases
        case 1
        then show ?thesis using glyphs_distinct by simp
      next
        case 2
        from moon_grid_cells [OF 2] obtain y x where "DARK = cell_char (- 1) waxing y x"
          by auto
        with cell_char_full_moon [of waxing y x] show ?thesis by simp
      qed
    qed
    with u show ?thesis by blast
  qed
  from new full show ?thesis by blast
qed

text \<open>The new-and-full theorem used on a 3 by 3 grid.\<close>

theorem unicode_moon_new_and_full_witness:
  "(2::int) \<le> 3
     \<and> (\<exists>s. unicode_moon 0 True 3 3 = Inr s \<and> FULL \<notin> set s)
     \<and> (\<exists>s. unicode_moon 1 False 3 3 = Inr s \<and> DARK \<notin> set s)"
proof -
  have h: "(2::int) \<le> 3" by simp
  note th = unicode_moon_new_and_full [OF h h]
  from th have "\<exists>s. unicode_moon 0 True 3 3 = Inr s \<and> FULL \<notin> set s" by blast
  moreover from th have "\<exists>s. unicode_moon 1 False 3 3 = Inr s \<and> DARK \<notin> set s" by blast
  ultimately show ?thesis using h by blast
qed

text \<open>
  Claim C10. For every \<open>illum_frac\<close>, both waxing values and all integers \<open>width \<ge> 2\<close>
  and \<open>height \<ge> 2\<close>, the first line (\<open>j = 0\<close>) and the last line (\<open>j = height - 1\<close>) of the
  returned grid are \<open>width\<close> OUT glyphs: there \<open>y_adj\<close> is \<open>-1.15\<close> or \<open>1.15\<close>, its square
  1.3225 exceeds 1, and every cell is outside the disc.
\<close>

theorem unicode_moon_top_bottom_blank:
  assumes "2 \<le> width" and "2 \<le> height"
  shows "\<exists>s. unicode_moon illum_frac waxing width height = Inr s
            \<and> length (grid_lines s) = nat height
            \<and> grid_lines s ! 0 = replicate (nat width) OUT
            \<and> grid_lines s ! (nat height - 1) = replicate (nat width) OUT"
proof -
  from grid_lines_unicode_moon [OF assms] obtain s where
    s: "unicode_moon illum_frac waxing width height = Inr s"
       "grid_lines s = moon_grid illum_frac waxing width height" by blast
  have len: "length (grid_lines s) = nat height" by (simp add: s(2) length_moon_grid)
  have first: "grid_lines s ! 0 = replicate (nat width) OUT"
    using assms
    by (simp add: s(2) moon_grid_nth cell_char_first_row
                  map_replicate_const length_py_range)
  have h: "nat height - 1 < nat height" "int (nat height - 1) = height - 1" "height \<noteq> 1"
    using assms by simp_all
  have last: "grid_lines s ! (nat height - 1) = replicate (nat width) OUT"
    by (simp only: s(2) moon_grid_nth [OF h(1)] h(2) cell_char_last_row [OF h(3)]
                   map_replicate_const length_py_range)
  from s(1) len first last show ?thesis by blast
qed

text \<open>The blank-rows theorem used at the default size, width 23 and height 13.\<close>

theorem unicode_moon_top_bottom_blank_witness:
  "(2::int) \<le> 23 \<and> (2::int) \<le> 13
     \<and> (\<exists>s. unicode_moon 0.3 True 23 13 = Inr s
            \<and> length (grid_lines s) = 13
            \<and> grid_lines s ! 0 = replicate 23 OUT
            \<and> grid_lines s ! 12 = replicate 23 OUT)"
proof -
  have h: "(2::int) \<le> 23" "(2::int) \<le> 13" by simp_all
  from unicode_moon_top_bottom_blank [OF h, where illum_frac = "0.3" and waxing = True]
  obtain s where "unicode_moon 0.3 True 23 13 = Inr s"
    and "length (grid_lines s) = nat 13"
    and "grid_lines s ! 0 = replicate (nat 23) OUT"
    and "grid_lines s ! (nat 13 - 1) = replicate (nat 23) OUT"
    by blast
  then show ?thesis using h by auto
qed

section \<open>Properties of the binary64 embedding\<close>

subsection \<open>Rounding\<close>

lemma round_half_even_of_int [simp]: "round_half_even (of_int n) = n"
  by (simp add: round_half_even_def)

lemma round_half_even_near: "\<bar>of_int (round_half_even t) - t\<bar> \<le> 1 / 2"
  unfolding round_half_even_def Let_def by (auto simp: abs_le_iff)

lemma round_half_even_eqI:
  assumes "\<bar>t - of_int m\<bar> < 1 / 2"
  shows "round_half_even t = m"
proof -
  have "\<bar>of_int (round_half_even t) - (of_int m :: real)\<bar> < 1"
    using round_half_even_near [of t] assms by linarith
  then have "\<bar>round_half_even t - m\<bar> < 1"
    by (metis of_int_abs of_int_diff of_int_less_1_iff)
  then show ?thesis by linarith
qed

lemma round_half_even_le: "t \<le> of_int n \<Longrightarrow> round_half_even t \<le> n"
  unfolding round_half_even_def Let_def
  by (auto simp: le_floor_iff) linarith+

lemma round_half_even_ge: "of_int n \<le> t \<Longrightarrow> n \<le> round_half_even t"
  unfolding round_half_even_def Let_def
  by (auto simp: le_floor_iff) linarith+

lemma floor_minus_non_int:
  fixes t :: real
  assumes "t \<noteq> of_int \<lfloor>t\<rfloor>"
  shows "\<lfloor>- t\<rfloor> = - \<lfloor>t\<rfloor> - 1"
proof (rule floor_unique)
  have "of_int \<lfloor>t\<rfloor> < t" using assms of_int_floor_le [of t] by linarith
  then show "- t < of_int (- \<lfloor>t\<rfloor> - 1) + 1" by simp
  have "t < of_int \<lfloor>t\<rfloor> + 1" by linarith
  then show "of_int (- \<lfloor>t\<rfloor> - 1) \<le> - t"
    unfolding of_int_diff of_int_minus of_int_1 by linarith
qed

lemma round_half_even_minus: "round_half_even (- t) = - round_half_even t"
proof (cases "t = of_int \<lfloor>t\<rfloor>")
  case True
  then obtain n where "t = of_int n" ..
  then show ?thesis by (simp flip: of_int_minus)
next
  case False
  note fl = floor_minus_non_int [OF False]
  from False have pos: "0 < t - of_int \<lfloor>t\<rfloor>" using of_int_floor_le [of t] by linarith
  show ?thesis
    unfolding round_half_even_def Let_def fl using pos by auto
qed

lemma pow2_nonneg_exp: "0 \<le> e \<Longrightarrow> (2::real) powi e = 2 ^ nat e"
  by (simp add: power_int_def)

lemma pow2_neg_exp: "(2::real) powi (- e) = 1 / 2 powi e"
  by (simp add: power_int_minus inverse_eq_divide)

lemma pow2_add: "(2::real) powi (a + b) = 2 powi a * 2 powi b"
  by (simp add: power_int_add)

lemma pow2_mono: "a \<le> b \<Longrightarrow> (2::real) powi a \<le> 2 powi b"
  by (rule power_int_increasing) simp_all

lemma pow2_strict_mono: "a < b \<Longrightarrow> (2::real) powi a < 2 powi b"
  by (rule power_int_strict_increasing) simp_all

lemma pow2_le_imp: "(2::real) powi a < 2 powi b \<Longrightarrow> a < b"
  using pow2_mono [of b a] by (cases "a < b") simp_all

lemma binade_bounds:
  assumes "x \<noteq> 0"
  shows "2 powi binade x \<le> \<bar>x\<bar>" and "\<bar>x\<bar> < 2 powi (binade x + 1)"
proof -
  have "2 powi binade x \<le> \<bar>x\<bar> \<and> \<bar>x\<bar> < 2 powi (binade x + 1)"
  proof (cases "1 \<le> \<bar>x\<bar>")
    case True
    define n where "n = \<lfloor>\<bar>x\<bar>\<rfloor>"
    have n: "1 \<le> n" using True by (simp add: n_def le_floor_iff)
    then have npos: "0 < n" by simp
    from bitlen_bounds [OF npos]
    have lo: "2 ^ nat (bitlen n - 1) \<le> n" and hi: "n < 2 ^ nat (bitlen n)" by simp_all
    have L: "1 \<le> bitlen n"
      using npos bitlen_eq_zero_iff [of n] bitlen_nonneg [of n] by linarith
    have b: "binade x = bitlen n - 1" using True by (simp add: binade_def n_def)
    have "(2::real) powi (bitlen n - 1) = 2 ^ nat (bitlen n - 1)"
      using L by (intro pow2_nonneg_exp) simp
    also have "\<dots> = of_int (2 ^ nat (bitlen n - 1))" by simp
    also have "\<dots> \<le> of_int n" using lo by (simp only: of_int_le_iff)
    also have "\<dots> \<le> \<bar>x\<bar>" by (simp add: n_def)
    finally have 1: "2 powi binade x \<le> \<bar>x\<bar>" by (simp add: b)
    have "n + 1 \<le> 2 ^ nat (bitlen n)" using hi by simp
    then have "(of_int (n + 1) :: real) \<le> of_int (2 ^ nat (bitlen n))"
      by (simp only: of_int_le_iff)
    moreover have "\<bar>x\<bar> < of_int (n + 1)" unfolding n_def by linarith
    ultimately have "\<bar>x\<bar> < 2 ^ nat (bitlen n)" by simp
    also have "\<dots> = 2 powi (bitlen n)" using L by (subst pow2_nonneg_exp) simp_all
    finally have 2: "\<bar>x\<bar> < 2 powi (binade x + 1)" by (simp add: b)
    from 1 2 show ?thesis ..
  next
    case False
    define r where "r = 1 / \<bar>x\<bar>"
    define c where "c = \<lceil>r\<rceil>"
    have xpos: "0 < \<bar>x\<bar>" using assms by simp
    have xlt: "\<bar>x\<bar> < 1" using False by simp
    have r1: "1 < r" unfolding r_def using xpos xlt by simp
    have c2: "2 \<le> c" unfolding c_def using r1 by linarith
    then have cpos: "0 < c - 1" by simp
    define k where "k = bitlen (c - 1)"
    from bitlen_bounds [OF cpos]
    have lo: "2 ^ nat (k - 1) \<le> c - 1" and hi: "c - 1 < 2 ^ nat k"
      by (simp_all add: k_def)
    have K: "1 \<le> k"
      unfolding k_def using cpos bitlen_eq_zero_iff [of "c - 1"] bitlen_nonneg [of "c - 1"]
      by linarith
    have b: "binade x = - k" using False by (simp add: binade_def k_def c_def r_def)
    have "c \<le> 2 ^ nat k" using hi by simp
    then have "(of_int c :: real) \<le> 2 ^ nat k" by simp
    moreover have "r \<le> of_int c" unfolding c_def by linarith
    ultimately have "r \<le> 2 ^ nat k" by linarith
    then have "1 / \<bar>x\<bar> \<le> 2 powi k" using K by (simp add: r_def pow2_nonneg_exp)
    then have "1 \<le> 2 powi k * \<bar>x\<bar>" using xpos by (simp add: field_simps)
    then have "1 / 2 powi k \<le> \<bar>x\<bar>" by (simp add: field_simps)
    then have 1: "2 powi binade x \<le> \<bar>x\<bar>" by (simp add: b pow2_neg_exp)
    have "(2 ^ nat (k - 1) :: real) \<le> of_int (c - 1)"
      using lo by (simp only: numeral_power_le_of_int_cancel_iff)
    moreover have "of_int (c - 1) < r" unfolding c_def by linarith
    ultimately have "2 ^ nat (k - 1) < r" by linarith
    then have "2 powi (k - 1) < 1 / \<bar>x\<bar>" using K by (simp add: r_def pow2_nonneg_exp)
    then have "2 powi (k - 1) * \<bar>x\<bar> < 1" using xpos by (simp add: field_simps)
    then have "\<bar>x\<bar> < 1 / 2 powi (k - 1)" by (simp add: field_simps)
    also have "\<dots> = 2 powi (- (k - 1))" by (simp only: pow2_neg_exp)
    finally have 2: "\<bar>x\<bar> < 2 powi (binade x + 1)" by (simp add: b)
    from 1 2 show ?thesis ..
  qed
  then show "2 powi binade x \<le> \<bar>x\<bar>" and "\<bar>x\<bar> < 2 powi (binade x + 1)" by simp_all
qed

lemma binade_eqI:
  assumes "2 powi e \<le> \<bar>x\<bar>" and "\<bar>x\<bar> < 2 powi (e + 1)"
  shows "binade x = e"
proof -
  have nz: "x \<noteq> 0"
  proof
    assume "x = 0"
    with assms(1) have "(2::real) powi e \<le> 0" by simp
    moreover have "0 < (2::real) powi e" by simp
    ultimately show False by linarith
  qed
  note b = binade_bounds [OF nz]
  have "(2::real) powi binade x < 2 powi (e + 1)" using b(1) assms(2) by linarith
  then have "binade x < e + 1" by (rule pow2_le_imp)
  moreover have "(2::real) powi e < 2 powi (binade x + 1)" using b(2) assms(1) by linarith
  then have "e < binade x + 1" by (rule pow2_le_imp)
  ultimately show ?thesis by simp
qed

lemma binade_minus [simp]: "binade (- x) = binade x"
  by (simp add: binade_def)

lemma ulp_exp_minus [simp]: "ulp_exp (- x) = ulp_exp x"
  by (simp add: ulp_exp_def)

lemma round_f64_minus: "round_f64 (- x) = - round_f64 x"
  by (simp add: round_f64_def round_half_even_minus)

lemma round_f64_eqI:
  assumes "2 powi e \<le> \<bar>x\<bar>" and "\<bar>x\<bar> < 2 powi (e + 1)"
    and "u = max e (- 1022) - 52"
    and "\<bar>x / 2 powi u - of_int m\<bar> < 1 / 2"
  shows "round_f64 x = of_int m * 2 powi u"
proof -
  have nz: "x \<noteq> 0"
  proof
    assume "x = 0"
    with assms(1) have "(2::real) powi e \<le> 0" by simp
    moreover have "0 < (2::real) powi e" by simp
    ultimately show False by linarith
  qed
  have "ulp_exp x = u" by (simp add: ulp_exp_def binade_eqI [OF assms(1,2)] assms(3))
  then show ?thesis
    using nz by (simp add: round_f64_def round_half_even_eqI [OF assms(4)])
qed

lemma round_f64_nonneg: "0 \<le> x \<Longrightarrow> 0 \<le> round_f64 x"
proof -
  assume x: "0 \<le> x"
  have "(of_int 0 :: real) \<le> x / 2 powi ulp_exp x" using x by simp
  then have "0 \<le> round_half_even (x / 2 powi ulp_exp x)" by (rule round_half_even_ge)
  then show ?thesis by (simp add: round_f64_def)
qed

lemma binade_mono:
  assumes "x \<noteq> 0" and "\<bar>x\<bar> \<le> \<bar>y\<bar>"
  shows "binade x \<le> binade y"
proof -
  from assms have y: "y \<noteq> 0" by auto
  have "(2::real) powi binade x < 2 powi (binade y + 1)"
    using binade_bounds(1) [OF assms(1)] binade_bounds(2) [OF y] assms(2) by linarith
  then have "binade x < binade y + 1" by (rule pow2_le_imp)
  then show ?thesis by simp
qed

lemma round_f64_le_representable:
  assumes "0 < x" and "x \<le> y" and "y / 2 powi ulp_exp y = of_int n"
  shows "round_f64 x \<le> y"
proof -
  have xnz: "x \<noteq> 0" using assms(1) by simp
  have "binade x \<le> binade y" using assms(1,2) by (intro binade_mono) simp_all
  then have u: "ulp_exp x \<le> ulp_exp y" by (simp add: ulp_exp_def)
  define d where "d = nat (ulp_exp y - ulp_exp x)"
  have uy: "ulp_exp y = ulp_exp x + int d" using u by (simp add: d_def)
  have y: "y = of_int n * 2 powi ulp_exp y" using assms(3) by (simp add: field_simps)
  have "y / 2 powi ulp_exp x = of_int n * (2 powi ulp_exp y / 2 powi ulp_exp x)"
    by (subst y) simp
  also have "2 powi ulp_exp y / 2 powi ulp_exp x = (2::real) ^ d"
    unfolding uy pow2_add by simp
  finally have yN: "y / 2 powi ulp_exp x = of_int (n * 2 ^ d)" by simp
  have "x / 2 powi ulp_exp x \<le> y / 2 powi ulp_exp x"
    using assms(2) by (simp add: divide_right_mono)
  then have "x / 2 powi ulp_exp x \<le> of_int (n * 2 ^ d)" by (simp only: yN)
  then have "round_half_even (x / 2 powi ulp_exp x) \<le> n * 2 ^ d"
    by (rule round_half_even_le)
  then have "(of_int (round_half_even (x / 2 powi ulp_exp x)) :: real) \<le> of_int (n * 2 ^ d)"
    by (simp only: of_int_le_iff)
  then have "real_of_int (round_half_even (x / 2 powi ulp_exp x)) * 2 powi ulp_exp x
               \<le> real_of_int (n * 2 ^ d) * 2 powi ulp_exp x"
    by (rule mult_right_mono) simp
  also have "\<dots> = y" using yN by (simp add: field_simps)
  finally show ?thesis using xnz by (simp add: round_f64_def)
qed

lemma round_f64_0 [simp]: "round_f64 0 = 0"
  by (simp add: round_f64_def)

lemma round_f64_exact:
  assumes "x = of_int n * 2 powi e" and "\<bar>n\<bar> < 2 ^ 53" and "- 1074 \<le> e"
  shows "round_f64 x = x"
proof (cases "x = 0")
  case True
  then show ?thesis by simp
next
  case False
  have "\<bar>x\<bar> = of_int \<bar>n\<bar> * 2 powi e" by (simp add: assms(1) abs_mult)
  also have "\<dots> < 2 ^ 53 * 2 powi e"
  proof (rule mult_strict_right_mono)
    show "real_of_int \<bar>n\<bar> < 2 ^ 53" using assms(2) by (simp only: of_int_less_numeral_power_cancel_iff)
    show "0 < (2::real) powi e" by simp
  qed
  also have "\<dots> = 2 powi (e + 53)" by (simp add: pow2_add)
  finally have "\<bar>x\<bar> < 2 powi (e + 53)" .
  then have "(2::real) powi binade x < 2 powi (e + 53)"
    using binade_bounds(1) [OF False] by linarith
  then have "binade x < e + 53" by (rule pow2_le_imp)
  then have u: "ulp_exp x \<le> e" using assms(3) by (simp add: ulp_exp_def)
  define d where "d = nat (e - ulp_exp x)"
  have e: "e = ulp_exp x + int d" using u by (simp add: d_def)
  have "x / 2 powi ulp_exp x = of_int n * (2 powi e / 2 powi ulp_exp x)"
    by (simp add: assms(1))
  also have "2 powi e / 2 powi ulp_exp x = (2::real) ^ d"
    by (subst e) (simp add: pow2_add)
  finally have q: "x / 2 powi ulp_exp x = of_int (n * 2 ^ d)" by simp
  have "round_f64 x = of_int (n * 2 ^ d) * 2 powi ulp_exp x"
    using False by (simp only: round_f64_def q round_half_even_of_int if_False)
  also have "\<dots> = x" using q by (simp add: field_simps)
  finally show ?thesis .
qed

lemma round_f64_of_int_exact: "\<bar>n\<bar> < 2 ^ 53 \<Longrightarrow> round_f64 (of_int n) = of_int n"
  by (rule round_f64_exact [where n = n and e = 0]) simp_all



lemma round_f64_1 [simp]: "round_f64 1 = 1"
  using round_f64_of_int_exact [of 1] by simp



subsection \<open>The classifier on doubles\<close>

lemma SYNODIC_MONTH_f64_eq: "SYNODIC_MONTH_f64 = 2078030439535053 / 2 ^ 46"
proof -
  have "round_f64 29.53058867 = of_int 8312121758140212 * 2 powi (- 48)"
    by (rule round_f64_eqI [where e = 4]) simp_all
  then show ?thesis by (simp add: SYNODIC_MONTH_f64_def)
qed

lemma SYNODIC_MONTH_f64_bounds:
  "0 < SYNODIC_MONTH_f64" "29.53058867 < SYNODIC_MONTH_f64" "SYNODIC_MONTH_f64 < 30"
  by (simp_all add: SYNODIC_MONTH_f64_eq)

lemma SYNODIC_MONTH_f64_representable:
  "SYNODIC_MONTH_f64 / 2 powi ulp_exp SYNODIC_MONTH_f64 = of_int 8312121758140212"
proof -
  have "binade SYNODIC_MONTH_f64 = 4"
    by (rule binade_eqI) (simp_all add: SYNODIC_MONTH_f64_eq)
  then have "ulp_exp SYNODIC_MONTH_f64 = - 48" by (simp add: ulp_exp_def)
  then show ?thesis by (simp add: SYNODIC_MONTH_f64_eq)
qed

lemma f64_mod_nonneg:
  assumes "0 \<le> x"
  shows "f64_mod x SYNODIC_MONTH_f64 =
           Inr (x - SYNODIC_MONTH_f64 * of_int \<lfloor>x / SYNODIC_MONTH_f64\<rfloor>)"
    and "0 \<le> x - SYNODIC_MONTH_f64 * of_int \<lfloor>x / SYNODIC_MONTH_f64\<rfloor>"
    and "x - SYNODIC_MONTH_f64 * of_int \<lfloor>x / SYNODIC_MONTH_f64\<rfloor> < SYNODIC_MONTH_f64"
proof -
  let ?S = SYNODIC_MONTH_f64
  note pos = SYNODIC_MONTH_f64_bounds(1)
  define q where "q = x / ?S"
  define m where "m = x - ?S * of_int \<lfloor>q\<rfloor>"
  have x: "x = ?S * q" using pos by (simp add: q_def)
  have m': "m = ?S * (q - of_int \<lfloor>q\<rfloor>)" unfolding m_def x by (simp add: algebra_simps)
  have fr: "0 \<le> q - of_int \<lfloor>q\<rfloor>" "q - of_int \<lfloor>q\<rfloor> < 1" by linarith+
  have lo: "0 \<le> m" unfolding m' using pos fr(1) by simp
  have hi: "m < ?S" unfolding m' using pos fr(2) by (simp add: mult_less_cancel_left2)
  have "0 \<le> q" using assms pos by (simp add: q_def)
  then have "c_fmod x ?S = m" by (simp add: c_fmod_def c_trunc_def m_def q_def)
  then have "f64_mod x ?S = Inr m"
    using pos lo by (simp add: f64_mod_def Let_def)
  then show "f64_mod x ?S = Inr (x - ?S * of_int \<lfloor>x / ?S\<rfloor>)"
    and "0 \<le> x - ?S * of_int \<lfloor>x / ?S\<rfloor>"
    and "x - ?S * of_int \<lfloor>x / ?S\<rfloor> < ?S"
    using lo hi by (simp_all add: m_def q_def)
qed

lemma f64_mod_neg:
  assumes "x < 0"
  defines "m \<equiv> x - SYNODIC_MONTH_f64 * of_int \<lceil>x / SYNODIC_MONTH_f64\<rceil>"
  shows "f64_mod x SYNODIC_MONTH_f64 =
           (if m \<noteq> 0 then Inr (round_f64 (m + SYNODIC_MONTH_f64)) else Inr 0)"
    and "- SYNODIC_MONTH_f64 < m" and "m \<le> 0"
proof -
  let ?S = SYNODIC_MONTH_f64
  note pos = SYNODIC_MONTH_f64_bounds(1)
  define q where "q = x / ?S"
  have x: "x = ?S * q" using pos by (simp add: q_def)
  have m': "m = ?S * (q - of_int \<lceil>q\<rceil>)" unfolding m_def x by (simp add: algebra_simps)
  have fr: "q - of_int \<lceil>q\<rceil> \<le> 0" "- 1 < q - of_int \<lceil>q\<rceil>" by linarith+
  show hi: "m \<le> 0" unfolding m' using pos fr(1) by (simp add: mult_le_0_iff)
  have "?S * (- 1) < ?S * (q - of_int \<lceil>q\<rceil>)"
    using pos fr(2) by (simp only: mult_less_cancel_left_pos)
  then show lo: "- ?S < m" unfolding m' by simp
  have "q < 0" using assms pos by (simp add: q_def divide_neg_pos)
  then have "c_fmod x ?S = m" by (simp add: c_fmod_def c_trunc_def m_def q_def)
  then show "f64_mod x ?S = (if m \<noteq> 0 then Inr (round_f64 (m + ?S)) else Inr 0)"
    using pos hi by (auto simp: f64_mod_def Let_def)
qed

lemma f64_mod_residue:
  "\<exists>a. f64_mod x SYNODIC_MONTH_f64 = Inr a \<and> 0 \<le> a \<and> a \<le> SYNODIC_MONTH_f64"
proof (cases "0 \<le> x")
  case True
  from f64_mod_nonneg [OF True] show ?thesis by (intro exI conjI) (assumption, simp_all)
next
  case False
  then have neg: "x < 0" by simp
  define m where "m = x - SYNODIC_MONTH_f64 * of_int \<lceil>x / SYNODIC_MONTH_f64\<rceil>"
  note f = f64_mod_neg [OF neg, folded m_def]
  show ?thesis
  proof (cases "m = 0")
    case True
    with f(1) SYNODIC_MONTH_f64_bounds(1) show ?thesis by simp
  next
    case False
    have v: "0 < m + SYNODIC_MONTH_f64" "m + SYNODIC_MONTH_f64 \<le> SYNODIC_MONTH_f64"
      using f(2,3) by linarith+
    have "0 \<le> round_f64 (m + SYNODIC_MONTH_f64)" using v(1) by (intro round_f64_nonneg) simp
    moreover have "round_f64 (m + SYNODIC_MONTH_f64) \<le> SYNODIC_MONTH_f64"
      by (rule round_f64_le_representable [OF v SYNODIC_MONTH_f64_representable])
    ultimately show ?thesis using f(1) False by simp
  qed
qed

lemma moon_phase_name_f64_of_mod:
  "f64_mod age_days SYNODIC_MONTH_f64 = Inr a \<Longrightarrow>
   moon_phase_name_f64 age_days =
     Inr (if a < 1 then ''New Moon''
          else if a < 6 then ''Waxing Crescent''
          else if a < 8 then ''First Quarter''
          else if a < 13 then ''Waxing Gibbous''
          else if a < 16 then ''Full Moon''
          else if a < 21 then ''Waning Gibbous''
          else if a < 23 then ''Last Quarter''
          else if a < 29 then ''Waning Crescent''
          else ''New Moon'')"
  by (simp add: moon_phase_name_f64_def)

lemma f64_mod_reduced:
  assumes "0 \<le> a" and "a < SYNODIC_MONTH_f64"
  shows "f64_mod a SYNODIC_MONTH_f64 = Inr a"
proof -
  note pos = SYNODIC_MONTH_f64_bounds(1)
  have "0 \<le> a / SYNODIC_MONTH_f64" "a / SYNODIC_MONTH_f64 < 1" using assms pos by simp_all
  then have "\<lfloor>a / SYNODIC_MONTH_f64\<rfloor> = 0" by linarith
  then show ?thesis using f64_mod_nonneg(1) [OF assms(1)] by simp
qed

lemma moon_phase_name_f64_at_0_5: "moon_phase_name_f64 0.5 = Inr ''New Moon''"
  by (subst moon_phase_name_f64_of_mod [OF f64_mod_reduced])
     (simp_all add: SYNODIC_MONTH_f64_eq)

lemma moon_phase_name_f64_at_14_5: "moon_phase_name_f64 14.5 = Inr ''Full Moon''"
  by (subst moon_phase_name_f64_of_mod [OF f64_mod_reduced])
     (simp_all add: SYNODIC_MONTH_f64_eq)

lemma moon_phase_name_f64_at_7: "moon_phase_name_f64 7 = Inr ''First Quarter''"
  by (subst moon_phase_name_f64_of_mod [OF f64_mod_reduced])
     (simp_all add: SYNODIC_MONTH_f64_eq)

lemma moon_phase_name_f64_at_22: "moon_phase_name_f64 22 = Inr ''Last Quarter''"
  by (subst moon_phase_name_f64_of_mod [OF f64_mod_reduced])
     (simp_all add: SYNODIC_MONTH_f64_eq)

lemma moon_phase_name_f64_at_1: "moon_phase_name_f64 1 = Inr ''Waxing Crescent''"
  by (subst moon_phase_name_f64_of_mod [OF f64_mod_reduced])
     (simp_all add: SYNODIC_MONTH_f64_eq)

lemma floor_residue_bounds:
  "0 \<le> x - SYNODIC_MONTH_f64 * of_int \<lfloor>x / SYNODIC_MONTH_f64\<rfloor>"
  "x - SYNODIC_MONTH_f64 * of_int \<lfloor>x / SYNODIC_MONTH_f64\<rfloor> < SYNODIC_MONTH_f64"
proof -
  let ?S = SYNODIC_MONTH_f64
  note pos = SYNODIC_MONTH_f64_bounds(1)
  define q where "q = x / ?S"
  have x: "x = ?S * q" using pos by (simp add: q_def)
  have m: "x - ?S * of_int \<lfloor>q\<rfloor> = ?S * (q - of_int \<lfloor>q\<rfloor>)"
    by (subst x) (simp add: algebra_simps)
  have fr: "0 \<le> q - of_int \<lfloor>q\<rfloor>" "q - of_int \<lfloor>q\<rfloor> < 1" by linarith+
  have "0 \<le> x - ?S * of_int \<lfloor>q\<rfloor>" unfolding m using pos fr(1) by simp
  then show "0 \<le> x - ?S * of_int \<lfloor>x / ?S\<rfloor>" by (simp only: q_def)
  have "x - ?S * of_int \<lfloor>q\<rfloor> < ?S"
    unfolding m using pos fr(2) by (simp add: mult_less_cancel_left2)
  then show "x - ?S * of_int \<lfloor>x / ?S\<rfloor> < ?S" by (simp only: q_def)
qed

lemma f64_mod_floor_residue:
  "f64_mod x SYNODIC_MONTH_f64 =
     Inr (if 0 \<le> x then x - SYNODIC_MONTH_f64 * of_int \<lfloor>x / SYNODIC_MONTH_f64\<rfloor>
          else round_f64 (x - SYNODIC_MONTH_f64 * of_int \<lfloor>x / SYNODIC_MONTH_f64\<rfloor>))"
proof (cases "0 \<le> x")
  case True
  then show ?thesis using f64_mod_nonneg(1) [OF True] by simp
next
  case False
  then have neg: "x < 0" by simp
  let ?S = SYNODIC_MONTH_f64
  note pos = SYNODIC_MONTH_f64_bounds(1)
  define q where "q = x / ?S"
  have x: "x = ?S * q" using pos by (simp add: q_def)
  define m where "m = x - ?S * of_int \<lceil>q\<rceil>"
  note f = f64_mod_neg(1) [OF neg, folded q_def, folded m_def]
  show ?thesis
  proof (cases "m = 0")
    case True
    then have "?S * q = ?S * of_int \<lceil>q\<rceil>" unfolding m_def x by simp
    then have "q = of_int \<lceil>q\<rceil>" using pos by simp
    then have fq: "of_int \<lfloor>q\<rfloor> = q" by (metis floor_of_int)
    have "x - ?S * of_int \<lfloor>q\<rfloor> = 0" by (subst x, simp only: fq)
    then show ?thesis using f True neg by (simp add: q_def)
  next
    case nz: False
    have "q \<noteq> of_int \<lceil>q\<rceil>"
    proof
      assume "q = of_int \<lceil>q\<rceil>"
      then have "?S * q = ?S * of_int \<lceil>q\<rceil>" by simp
      then show False using nz unfolding m_def x by simp
    qed
    then have "q \<noteq> of_int \<lfloor>q\<rfloor>" by (metis ceiling_of_int)
    then have "of_int \<lfloor>q\<rfloor> < q" using of_int_floor_le [of q] by linarith
    then have "\<lceil>q\<rceil> = \<lfloor>q\<rfloor> + 1" by (intro ceiling_unique) (simp, linarith)
    then have "m + ?S = x - ?S * of_int \<lfloor>q\<rfloor>" unfolding m_def by (simp add: algebra_simps)
    then show ?thesis using f nz neg by (simp add: q_def)
  qed
qed

text \<open>
  Against claim C3 as stated (the residue lies in \<open>[0, 29.53058867)\<close>): for the age
  \<open>-2^(-70)\<close>, a double, \<^verbatim>\<open>fmod\<close> returns the age itself and the correction
  \<^verbatim>\<open>mod += SYNODIC_MONTH\<close> rounds up to \<^verbatim>\<open>SYNODIC_MONTH\<close>: the residue is the stored
  constant, which is not below 29.53058867.
\<close>

theorem f64_mod_tiny_negative:
  "f64_mod (- (1 / 2 ^ 70)) SYNODIC_MONTH_f64 = Inr (2078030439535053 / 2 ^ 46)
     \<and> \<not> (2078030439535053 / 2 ^ 46 < (29.53058867 :: real))
     \<and> SYNODIC_MONTH_f64 = 2078030439535053 / 2 ^ 46"
proof -
  let ?x = "- (1 / 2 ^ 70) :: real"
  have neg: "?x < 0" by simp
  have "- 1 < ?x / SYNODIC_MONTH_f64" "?x / SYNODIC_MONTH_f64 \<le> 0"
    by (simp_all add: SYNODIC_MONTH_f64_eq)
  then have c: "\<lceil>?x / SYNODIC_MONTH_f64\<rceil> = 0" by linarith
  have m: "?x - SYNODIC_MONTH_f64 * of_int \<lceil>?x / SYNODIC_MONTH_f64\<rceil> = ?x"
    unfolding c by simp
  have "round_f64 (?x + SYNODIC_MONTH_f64) = of_int 8312121758140212 * 2 powi (- 48)"
    by (rule round_f64_eqI [where e = 4]) (simp_all add: SYNODIC_MONTH_f64_eq)
  then have r: "round_f64 (?x + SYNODIC_MONTH_f64) = 2078030439535053 / 2 ^ 46" by simp
  have "f64_mod ?x SYNODIC_MONTH_f64 = Inr (2078030439535053 / 2 ^ 46)"
    unfolding f64_mod_neg(1) [OF neg] m r by simp
  then show ?thesis by (simp add: SYNODIC_MONTH_f64_eq)
qed

text \<open>
  Claim C3, amended. For every float \<open>age_days\<close> the classifier computes
  \<open>a = age_days % SYNODIC_MONTH\<close>, Python's float remainder by the double nearest to
  29.53058867, and never fails. Let \<open>r\<close> be the exact residue of \<open>age_days\<close> modulo that
  double: \<open>0 \<le> r < SYNODIC_MONTH\<close> and \<open>age_days\<close> is \<open>r\<close> plus an integer multiple of
  \<open>SYNODIC_MONTH\<close>. For \<open>age_days \<ge> 0\<close> the remainder \<open>a\<close> is \<open>r\<close>; for \<open>age_days < 0\<close> it is
  \<open>r\<close> rounded to the nearest double. In both cases \<open>0 \<le> a \<le> SYNODIC_MONTH\<close>, the upper
  bound being reached. The name returned is the one of the row of the threshold table
  whose interval holds \<open>a\<close>, and New Moon for every \<open>a \<ge> 29\<close>. In particular ages 0.5,
  14.5, 7.0 and 22.0 give New Moon, Full Moon, First Quarter and Last Quarter.
\<close>

theorem moon_phase_name_f64_table:
  "\<exists>a r. \<exists>k::int.
        age_days = r + of_int k * SYNODIC_MONTH_f64
      \<and> 0 \<le> r \<and> r < SYNODIC_MONTH_f64
      \<and> a = (if 0 \<le> age_days then r else round_f64 r)
      \<and> f64_mod age_days SYNODIC_MONTH_f64 = Inr a
      \<and> 0 \<le> a \<and> a \<le> SYNODIC_MONTH_f64
      \<and> (\<forall>(lo, hi, name) \<in> set spec_phase_table.
            lo \<le> a \<and> a < hi \<longrightarrow> moon_phase_name_f64 age_days = Inr name)
      \<and> (29 \<le> a \<longrightarrow> moon_phase_name_f64 age_days = Inr ''New Moon'')
      \<and> moon_phase_name_f64 0.5 = Inr ''New Moon''
      \<and> moon_phase_name_f64 14.5 = Inr ''Full Moon''
      \<and> moon_phase_name_f64 7.0 = Inr ''First Quarter''
      \<and> moon_phase_name_f64 22.0 = Inr ''Last Quarter''"
proof -
  define k where "k = \<lfloor>age_days / SYNODIC_MONTH_f64\<rfloor>"
  define r where "r = age_days - SYNODIC_MONTH_f64 * of_int k"
  define a where "a = (if 0 \<le> age_days then r else round_f64 r)"
  have dec: "age_days = r + of_int k * SYNODIC_MONTH_f64" by (simp add: r_def)
  have rb: "0 \<le> r" "r < SYNODIC_MONTH_f64"
    unfolding r_def k_def by (rule floor_residue_bounds)+
  have m: "f64_mod age_days SYNODIC_MONTH_f64 = Inr a"
    unfolding a_def r_def k_def by (rule f64_mod_floor_residue)
  from f64_mod_residue [of age_days] m
  have ab: "0 \<le> a" "a \<le> SYNODIC_MONTH_f64" by simp_all
  have al: "\<forall>(lo, hi, name) \<in> set spec_phase_table.
            lo \<le> a \<and> a < hi \<longrightarrow> moon_phase_name_f64 age_days = Inr name"
    unfolding moon_phase_name_f64_of_mod [OF m] spec_phase_table_def by simp
  have nm: "29 \<le> a \<longrightarrow> moon_phase_name_f64 age_days = Inr ''New Moon''"
    unfolding moon_phase_name_f64_of_mod [OF m] by simp
  have ex: "moon_phase_name_f64 0.5 = Inr ''New Moon''"
    "moon_phase_name_f64 14.5 = Inr ''Full Moon''"
    "moon_phase_name_f64 7.0 = Inr ''First Quarter''"
    "moon_phase_name_f64 22.0 = Inr ''Last Quarter''"
    using moon_phase_name_f64_at_0_5 moon_phase_name_f64_at_14_5
      moon_phase_name_f64_at_7 moon_phase_name_f64_at_22 by simp_all
  have a: "a = (if 0 \<le> age_days then r else round_f64 r)" by (rule a_def)
  show ?thesis
    by (rule exI [of _ a], rule exI [of _ r], rule exI [of _ k])
       (intro conjI dec rb a m ab al nm ex)
qed

text \<open>
  The table theorem used at \<open>age_days = 37\<close>, whose residue \<open>37 - SYNODIC_MONTH\<close> lies in
  the row \<open>[6, 8)\<close> of First Quarter, and at \<open>age_days = 29.25\<close>, whose residue is at
  least 29.
\<close>

theorem moon_phase_name_f64_table_witness:
  "(0::real) \<le> 37
     \<and> (6, 8, ''First Quarter'') \<in> set spec_phase_table
     \<and> (6::real) \<le> 37 - SYNODIC_MONTH_f64 \<and> 37 - SYNODIC_MONTH_f64 < 8
     \<and> moon_phase_name_f64 37 = Inr ''First Quarter''
     \<and> f64_mod 29.25 SYNODIC_MONTH_f64 = Inr 29.25 \<and> (29::real) \<le> 29.25
     \<and> moon_phase_name_f64 29.25 = Inr ''New Moon''"
proof -
  have fl: "\<lfloor>37 / SYNODIC_MONTH_f64\<rfloor> = 1"
    unfolding SYNODIC_MONTH_f64_eq by (rule floor_unique) simp_all
  have m: "f64_mod 37 SYNODIC_MONTH_f64 = Inr (37 - SYNODIC_MONTH_f64)"
    using f64_mod_nonneg(1) [of 37] unfolding fl by simp
  have row: "(6, 8, ''First Quarter'') \<in> set spec_phase_table"
    by (simp add: spec_phase_table_def)
  have rng: "(6::real) \<le> 37 - SYNODIC_MONTH_f64 \<and> 37 - SYNODIC_MONTH_f64 < 8"
    by (simp add: SYNODIC_MONTH_f64_eq)
  from moon_phase_name_f64_table [of 37] obtain a where
    a: "f64_mod 37 SYNODIC_MONTH_f64 = Inr a" and
    al: "\<forall>(lo, hi, name) \<in> set spec_phase_table.
            lo \<le> a \<and> a < hi \<longrightarrow> moon_phase_name_f64 37 = Inr name"
    by blast
  from a m have "a = 37 - SYNODIC_MONTH_f64" by simp
  with al row rng have first: "moon_phase_name_f64 37 = Inr ''First Quarter''" by blast
  have m': "f64_mod 29.25 SYNODIC_MONTH_f64 = Inr 29.25"
    by (rule f64_mod_reduced) (simp_all add: SYNODIC_MONTH_f64_eq)
  from moon_phase_name_f64_table [of "29.25"] obtain a' where
    a': "f64_mod 29.25 SYNODIC_MONTH_f64 = Inr a'" and
    nm: "29 \<le> a' \<longrightarrow> moon_phase_name_f64 29.25 = Inr ''New Moon''"
    by blast
  from a' m' have "a' = 29.25" by simp
  with nm have new: "moon_phase_name_f64 29.25 = Inr ''New Moon''" by simp
  from row rng first m' new show ?thesis by simp
qed

lemma ulp_exp_SYNODIC_MONTH_f64: "ulp_exp SYNODIC_MONTH_f64 = - 48"
proof -
  have "binade SYNODIC_MONTH_f64 = 4"
    by (rule binade_eqI) (simp_all add: SYNODIC_MONTH_f64_eq)
  then show ?thesis by (simp add: ulp_exp_def)
qed

lemma is_f64_floor_residue:
  assumes "is_f64 x" and "0 \<le> x"
  shows "is_f64 (x - SYNODIC_MONTH_f64 * of_int \<lfloor>x / SYNODIC_MONTH_f64\<rfloor>)"
proof (cases "x < SYNODIC_MONTH_f64")
  case True
  have "0 \<le> x / SYNODIC_MONTH_f64" "x / SYNODIC_MONTH_f64 < 1"
    using assms(2) True SYNODIC_MONTH_f64_bounds(1) by simp_all
  then have "\<lfloor>x / SYNODIC_MONTH_f64\<rfloor> = 0" by linarith
  then show ?thesis using assms(1) by simp
next
  case False
  let ?S = SYNODIC_MONTH_f64
  note pos = SYNODIC_MONTH_f64_bounds(1)
  define q where "q = \<lfloor>x / ?S\<rfloor>"
  define a where "a = x - ?S * of_int q"
  have a: "0 \<le> a" "a < ?S"
    using f64_mod_nonneg(2,3) [OF assms(2)] by (simp_all add: a_def q_def)
  have xnz: "x \<noteq> 0" using False pos by simp
  define N where "N = round_half_even (x / 2 powi ulp_exp x)"
  have xN: "x = of_int N * 2 powi ulp_exp x"
    using assms(1) xnz unfolding is_f64_def round_f64_def N_def by simp
  have "binade ?S \<le> binade x" using False pos by (intro binade_mono) simp_all
  then have "ulp_exp ?S \<le> ulp_exp x" by (simp add: ulp_exp_def)
  then have u: "- 48 \<le> ulp_exp x" by (simp only: ulp_exp_SYNODIC_MONTH_f64)
  define d where "d = nat (ulp_exp x + 48)"
  have ux: "ulp_exp x = int d + (- 48)" using u by (simp add: d_def)
  have x48: "x = of_int (N * 2 ^ d) * 2 powi (- 48)"
    by (subst xN, subst ux, subst pow2_add) simp
  have S48: "?S = of_int 8312121758140212 * 2 powi (- 48)"
    by (simp add: SYNODIC_MONTH_f64_eq)
  define n where "n = N * 2 ^ d - 8312121758140212 * q"
  have an: "a = of_int n * 2 powi (- 48)"
    unfolding a_def n_def by (subst x48, subst S48) (simp add: algebra_simps)
  have "of_int \<bar>n\<bar> * (2::real) powi (- 48) = \<bar>a\<bar>"
    by (simp add: an abs_mult)
  also have "\<dots> < ?S" using a by simp
  also have "\<dots> = of_int 8312121758140212 * 2 powi (- 48)" by (rule S48)
  finally have "real_of_int \<bar>n\<bar> < real_of_int 8312121758140212"
    by (simp only: mult_less_cancel_right_pos zero_less_power_int zero_less_numeral)
  then have "\<bar>n\<bar> < 8312121758140212" by (simp only: of_int_less_iff)
  then have nb: "\<bar>n\<bar> < 2 ^ 53" by simp
  have "round_f64 a = a"
    by (rule round_f64_exact [OF an nb]) simp
  then show ?thesis by (simp add: is_f64_def a_def q_def)
qed

lemma floor_residue_periodic:
  fixes x S :: real
  assumes "S \<noteq> 0"
  shows "x + of_int k * S - S * of_int \<lfloor>(x + of_int k * S) / S\<rfloor> = x - S * of_int \<lfloor>x / S\<rfloor>"
proof -
  have "(x + of_int k * S) / S = x / S + of_int k"
    using assms by (simp add: add_divide_distrib)
  then show ?thesis by (simp add: algebra_simps)
qed

lemma f64_mod_periodic_f64:
  assumes "is_f64 x" and "is_f64 (x + of_int k * SYNODIC_MONTH_f64)"
  shows "f64_mod (x + of_int k * SYNODIC_MONTH_f64) SYNODIC_MONTH_f64
           = f64_mod x SYNODIC_MONTH_f64"
proof -
  let ?S = SYNODIC_MONTH_f64
  let ?x' = "x + of_int k * ?S"
  have nz: "?S \<noteq> 0" using SYNODIC_MONTH_f64_bounds(1) by simp
  define r where "r = x - ?S * of_int \<lfloor>x / ?S\<rfloor>"
  have r': "?x' - ?S * of_int \<lfloor>?x' / ?S\<rfloor> = r"
    unfolding r_def by (rule floor_residue_periodic [OF nz])
  have fx: "f64_mod x ?S = Inr (if 0 \<le> x then r else round_f64 r)"
    unfolding r_def by (rule f64_mod_floor_residue)
  have fx': "f64_mod ?x' ?S = Inr (if 0 \<le> ?x' then r else round_f64 r)"
    using f64_mod_floor_residue [of ?x'] unfolding r' .
  have rr: "round_f64 r = r" if "0 \<le> x \<or> 0 \<le> ?x'"
    using that
  proof
    assume "0 \<le> x"
    from is_f64_floor_residue [OF assms(1) this] show ?thesis by (simp add: is_f64_def r_def)
  next
    assume "0 \<le> ?x'"
    from is_f64_floor_residue [OF assms(2) this] show ?thesis
      unfolding r' by (simp add: is_f64_def)
  qed
  show ?thesis unfolding fx fx' using rr by auto
qed

text \<open>
  Claim C4, amended. For every float \<open>age\<close> and every integer \<open>k\<close> such that
  \<open>age + k * SYNODIC_MONTH\<close>, the sum taken exactly and with \<open>SYNODIC_MONTH\<close> the double
  stored for 29.53058867, is again a float, the classifier returns a name for \<open>age\<close> and
  the same name for the shifted age.
\<close>

theorem moon_phase_name_f64_periodic:
  assumes "is_f64 age" and "is_f64 (age + of_int k * SYNODIC_MONTH_f64)"
  shows "\<exists>name. moon_phase_name_f64 age = Inr name
      \<and> moon_phase_name_f64 (age + of_int k * SYNODIC_MONTH_f64) = Inr name"
proof -
  have "moon_phase_name_f64 (age + of_int k * SYNODIC_MONTH_f64) = moon_phase_name_f64 age"
    by (simp only: moon_phase_name_f64_def f64_mod_periodic_f64 [OF assms])
  moreover from f64_mod_residue [of age] obtain a where
    "f64_mod age SYNODIC_MONTH_f64 = Inr a" by blast
  then have "\<exists>name. moon_phase_name_f64 age = Inr name"
    by (blast dest: moon_phase_name_f64_of_mod)
  ultimately show ?thesis by auto
qed

text \<open>
  The periodicity theorem used at \<open>age = -1\<close> and \<open>k = 1\<close>, a negative age shifted to a
  positive one: both are Waning Crescent.
\<close>

theorem moon_phase_name_f64_periodic_witness:
  "is_f64 (- 1) \<and> is_f64 (- 1 + of_int 1 * SYNODIC_MONTH_f64)
     \<and> moon_phase_name_f64 (- 1) = Inr ''Waning Crescent''
     \<and> moon_phase_name_f64 (- 1 + of_int 1 * SYNODIC_MONTH_f64) = Inr ''Waning Crescent''"
proof -
  have h1: "is_f64 (- 1)" by (simp add: is_f64_def round_f64_minus)
  have "round_f64 (- 1 + of_int 1 * SYNODIC_MONTH_f64) = - 1 + of_int 1 * SYNODIC_MONTH_f64"
    by (rule round_f64_exact [where n = 2007661695357389 and e = "- 46"])
       (simp_all add: SYNODIC_MONTH_f64_eq)
  then have h2: "is_f64 (- 1 + of_int 1 * SYNODIC_MONTH_f64)" by (simp only: is_f64_def)
  have "f64_mod (- 1 + of_int 1 * SYNODIC_MONTH_f64) SYNODIC_MONTH_f64
          = Inr (- 1 + of_int 1 * SYNODIC_MONTH_f64)"
    by (rule f64_mod_reduced) (simp_all add: SYNODIC_MONTH_f64_eq)
  from moon_phase_name_f64_of_mod [OF this]
  have s: "moon_phase_name_f64 (- 1 + of_int 1 * SYNODIC_MONTH_f64) = Inr ''Waning Crescent''"
    by (simp add: SYNODIC_MONTH_f64_eq)
  from moon_phase_name_f64_periodic [OF h1 h2] s
  have "moon_phase_name_f64 (- 1) = Inr ''Waning Crescent''" by auto
  with h1 h2 s show ?thesis by blast
qed

text \<open>
  Against claim C4 as stated (periodicity in 29.53058867): the ages 1.0 and
  11535387.19921875 are doubles and differ by exactly 390625 times 29.53058867, yet the
  first is Waxing Crescent and the second New Moon, because the stored constant exceeds
  the decimal by about \<open>2 * 10^(-16)\<close>.
\<close>

theorem moon_phase_name_f64_decimal_period:
  "moon_phase_name_f64 1 = Inr ''Waxing Crescent''
     \<and> moon_phase_name_f64 11535387.19921875 = Inr ''New Moon''
     \<and> (11535387.19921875 :: real) = 1 + 390625 * 29.53058867"
proof -
  let ?x = "11535387.19921875 :: real"
  have fl: "\<lfloor>?x / SYNODIC_MONTH_f64\<rfloor> = 390625"
    unfolding SYNODIC_MONTH_f64_eq by (rule floor_unique) simp_all
  have m: "f64_mod ?x SYNODIC_MONTH_f64 = Inr (?x - SYNODIC_MONTH_f64 * 390625)"
    using f64_mod_nonneg(1) [of ?x] unfolding fl by simp
  have "moon_phase_name_f64 ?x = Inr ''New Moon''"
    unfolding moon_phase_name_f64_of_mod [OF m] by (simp add: SYNODIC_MONTH_f64_eq)
  moreover have "?x = 1 + 390625 * 29.53058867" by simp
  ultimately show ?thesis using moon_phase_name_f64_at_1 by blast
qed

subsection \<open>The renderer on doubles\<close>


























end
